theory Spec2Isabelle
  imports Complex_Main
begin

section \<open>JavaScript values as the content script sees them\<close>

text \<open>
  A JavaScript number is a double. The functions modelled here never compute with
  numbers: they test for NaN, for truthiness and for \<open>> 0\<close>, and pass the number on.
  A finite double is a rational, so a number is NaN, an infinity or a rational.
\<close>

datatype jsnum = NaN | NegInf | Fin rat | PosInf

text \<open>
  A JSON-decoded value. An object is the list of its own properties in enumeration
  order (\<open>Object.entries\<close>); a property read takes the first entry with that key.
  A string is the list of its UTF-8 bytes: every string operation of the source that is
  modelled (\<open>startsWith("http")\<close>, \<open>includes('"')\<close>, \<open>replace(/"/g, '""')\<close>, matching
  \<open>/n/\<close> and ASCII letters and digits) looks for ASCII characters only, which UTF-8 keeps
  apart from every other character.
\<close>

datatype json =
    JNull
  | JBool bool
  | JNum jsnum
  | JStr string
  | JArr "json list"
  | JObj "(string \<times> json) list"

text \<open>
  A JavaScript value is a JSON value or \<open>undefined\<close>: \<open>None\<close> is \<open>undefined\<close>.
\<close>

type_synonym jsval = "json option"

text \<open>The exception a coercion or a method call on the wrong type throws.\<close>

datatype error = TypeError

text \<open>\<open>typeof v === "object"\<close>: objects, arrays and \<open>null\<close>.\<close>

fun typeof_object :: "jsval \<Rightarrow> bool" where
  "typeof_object (Some (JObj kvs)) = True"
| "typeof_object (Some (JArr xs)) = True"
| "typeof_object (Some JNull) = True"
| "typeof_object _ = False"

text \<open>\<open>Array.isArray(v)\<close>.\<close>

fun isArray :: "jsval \<Rightarrow> bool" where
  "isArray (Some (JArr xs)) = True"
| "isArray _ = False"

text \<open>The elements of an array value (no elements for anything else).\<close>

fun elems :: "jsval \<Rightarrow> json list" where
  "elems (Some (JArr xs)) = xs"
| "elems _ = []"

text \<open>
  A number is falsy when it is NaN or zero (\<open>-0\<close> is the rational 0 here).
\<close>

fun num_truthy :: "jsnum \<Rightarrow> bool" where
  "num_truthy NaN = False"
| "num_truthy (Fin r) = (r \<noteq> 0)"
| "num_truthy _ = True"

text \<open>Truthiness of a value, as \<open>!v\<close>, \<open>a || b\<close> and \<open>a && b\<close> test it.\<close>

fun truthy :: "jsval \<Rightarrow> bool" where
  "truthy None = False"
| "truthy (Some JNull) = False"
| "truthy (Some (JBool b)) = b"
| "truthy (Some (JNum n)) = num_truthy n"
| "truthy (Some (JStr s)) = (s \<noteq> [])"
| "truthy (Some (JArr xs)) = True"
| "truthy (Some (JObj kvs)) = True"

text \<open>\<open>a || b\<close> on values.\<close>

definition js_or :: "jsval \<Rightarrow> jsval \<Rightarrow> jsval" where
  "js_or a b = (if truthy a then a else b)"

text \<open>
  A property read \<open>v[k]\<close> or \<open>v.k\<close> for a key \<open>k\<close> that is none of an array index,
  \<open>length\<close> or a name inherited from a prototype (every key the source reads is a
  plain field name such as \<open>data\<close>, \<open>notes\<close>, \<open>price\<close>): an object gives its own
  property, every other non-null value gives \<open>undefined\<close>. The source reads a property
  of \<open>null\<close> or \<open>undefined\<close> only through \<open>?.\<close>, which is \<open>oprop\<close>.
\<close>

fun get_prop :: "json \<Rightarrow> string \<Rightarrow> jsval" where
  "get_prop (JObj kvs) k = map_of kvs k"
| "get_prop _ k = None"

text \<open>Optional chaining \<open>v?.k\<close>: \<open>undefined\<close> when \<open>v\<close> is \<open>null\<close> or \<open>undefined\<close>.\<close>

fun oprop :: "jsval \<Rightarrow> string \<Rightarrow> jsval" where
  "oprop None k = None"
| "oprop (Some JNull) k = None"
| "oprop (Some v) k = get_prop v k"

text \<open>The decimal digits of an array index, as \<open>Object.entries\<close> names the elements.\<close>

definition digit_char :: "nat \<Rightarrow> char" where
  "digit_char d = ''0123456789'' ! d"

function nat_to_dec :: "nat \<Rightarrow> string" where
  "nat_to_dec n =
     (if n < 10 then [digit_char n] else nat_to_dec (n div 10) @ [digit_char (n mod 10)])"
  by pat_completeness auto
termination
  by (relation "measure id") auto

declare nat_to_dec.simps [simp del]

text \<open>
  \<open>Object.entries(v)\<close> for an object or an array: the own properties in enumeration
  order. The elements of an array are named by their indices.
\<close>

fun entries :: "jsval \<Rightarrow> (string \<times> json) list" where
  "entries (Some (JObj kvs)) = kvs"
| "entries (Some (JArr xs)) = zip (map nat_to_dec [0..<length xs]) xs"
| "entries _ = []"

section \<open>JSON Tree Locator\<close>

text \<open>\<open>Array.isArray(val) && val.length > 0\<close>.\<close>

definition nonempty_array :: "jsval \<Rightarrow> bool" where
  "nonempty_array v = (isArray v \<and> elems v \<noteq> [])"

text \<open>
  \<open>Array.isArray(value) && value.length > 0 && typeof value[0] === "object" &&
  value[0] !== null\<close>.
\<close>

definition object_array :: "jsval \<Rightarrow> bool" where
  "object_array v =
     (isArray v \<and> elems v \<noteq> [] \<and> typeof_object (Some (hd (elems v))) \<and> hd (elems v) \<noteq> JNull)"

text \<open>The nine accessors of \<open>paths\<close>, applied to \<open>data\<close>, in the order of the source.\<close>

definition paths :: "jsval \<Rightarrow> jsval list" where
  "paths data =
     [oprop (oprop (oprop data ''data'') ''notes'') ''contents'',
      oprop (oprop (oprop data ''data'') ''notes'') ''items'',
      oprop (oprop data ''data'') ''notes'',
      oprop (oprop data ''data'') ''contents'',
      oprop (oprop data ''data'') ''search_results'',
      oprop (oprop data ''data'') ''items'',
      oprop data ''notes'',
      oprop data ''contents'',
      oprop data ''items'']"

text \<open>
  The loop over \<open>paths\<close>: the first value that is a non-empty array is returned
  (\<open>Some\<close>); \<open>None\<close> when the loop finishes without returning.
\<close>

fun first_path :: "jsval list \<Rightarrow> json list option" where
  "first_path [] = None"
| "first_path (v # vs) = (if nonempty_array v then Some (elems v) else first_path vs)"

text \<open>
  The loops over \<open>Object.entries\<close>: the first value that is a non-empty array whose
  first element is a non-null object. The flag \<open>skip\<close> is the \<open>key === "data"\<close> test of
  the second loop.
\<close>

fun first_entry :: "bool \<Rightarrow> (string \<times> json) list \<Rightarrow> json list option" where
  "first_entry skip [] = None"
| "first_entry skip ((k, v) # kvs) =
     (if skip \<and> k = ''data'' then first_entry skip kvs
      else if object_array (Some v) then Some (elems (Some v))
      else first_entry skip kvs)"

definition findNotesArray :: "jsval \<Rightarrow> json list" where
  "findNotesArray data =
     (if \<not> truthy data \<or> \<not> typeof_object data then []
      else (case first_path (paths data) of
              Some xs \<Rightarrow> xs
            | None \<Rightarrow>
                let dd = oprop data ''data'' in
                if isArray dd \<and> elems dd \<noteq> [] then elems dd
                else (case (if truthy dd \<and> typeof_object dd \<and> \<not> isArray dd
                            then first_entry False (entries dd) else None) of
                        Some xs \<Rightarrow> xs
                      | None \<Rightarrow>
                          (case first_entry True (entries data) of
                             Some xs \<Rightarrow> xs
                           | None \<Rightarrow> []))))"

section \<open>Coercions\<close>

text \<open>
  Two built-ins of the language are parameters of the model: \<open>Number::toString\<close>, the
  text of a number, and \<open>StringToNumber\<close>, the number a string parses to (NaN when it
  does not parse).
\<close>

record builtins =
  numToString :: "jsnum \<Rightarrow> string"
  stringToNumber :: "string \<Rightarrow> jsnum"

text \<open>
  \<open>String(v)\<close> and the \<open>${v}\<close> of a template literal, for a JSON-decoded value. An
  array is the texts of its elements joined by commas, \<open>null\<close> elements being empty.
  An object is \<open>[object Object]\<close>; when it has an own property \<open>toString\<close>, which a
  decoded value never makes callable, the conversion finds no method that returns a
  primitive and throws.
\<close>

fun to_str :: "builtins \<Rightarrow> json \<Rightarrow> error + string"
  and join_elems :: "builtins \<Rightarrow> json list \<Rightarrow> error + string" where
  "to_str B JNull = Inr ''null''"
| "to_str B (JBool b) = Inr (if b then ''true'' else ''false'')"
| "to_str B (JNum n) = Inr (numToString B n)"
| "to_str B (JStr s) = Inr s"
| "to_str B (JArr xs) = join_elems B xs"
| "to_str B (JObj kvs) =
     (if ''toString'' \<in> set (map fst kvs) then Inl TypeError else Inr ''[object Object]'')"
| "join_elems B [] = Inr []"
| "join_elems B (x # xs) =
     (case (if x = JNull then Inr [] else to_str B x) of
        Inl e \<Rightarrow> Inl e
      | Inr s \<Rightarrow>
          if xs = [] then Inr s
          else (case join_elems B xs of Inl e \<Rightarrow> Inl e | Inr r \<Rightarrow> Inr (s @ '','' @ r)))"

text \<open>\<open>String(v)\<close> for any value: \<open>undefined\<close> has a text of its own.\<close>

fun String_of :: "builtins \<Rightarrow> jsval \<Rightarrow> error + string" where
  "String_of B None = Inr ''undefined''"
| "String_of B (Some v) = to_str B v"

text \<open>
  \<open>Number(v)\<close>. An array converts through its text; an object is NaN, or throws as
  \<open>String\<close> does.
\<close>

fun Number_of :: "builtins \<Rightarrow> jsval \<Rightarrow> error + jsnum" where
  "Number_of B None = Inr NaN"
| "Number_of B (Some JNull) = Inr (Fin 0)"
| "Number_of B (Some (JBool b)) = Inr (Fin (if b then 1 else 0))"
| "Number_of B (Some (JNum n)) = Inr n"
| "Number_of B (Some (JStr s)) = Inr (stringToNumber B s)"
| "Number_of B (Some (JArr xs)) =
     (case join_elems B xs of Inl e \<Rightarrow> Inl e | Inr s \<Rightarrow> Inr (stringToNumber B s))"
| "Number_of B (Some (JObj kvs)) =
     (if ''toString'' \<in> set (map fst kvs) then Inl TypeError else Inr NaN)"

text \<open>\<open>n > 0\<close> on numbers: false for NaN.\<close>

fun num_pos :: "jsnum \<Rightarrow> bool" where
  "num_pos (Fin r) = (0 < r)"
| "num_pos PosInf = True"
| "num_pos _ = False"

section \<open>Field Normalizer\<close>

record article =
  title :: string
  likeCount :: jsnum
  price :: jsnum
  url :: string
  creator :: string
  likeRating :: "jsnum option"

text \<open>\<open>safeStr(val)\<close>.\<close>

definition safeStr :: "builtins \<Rightarrow> jsval \<Rightarrow> error + string" where
  "safeStr B val =
     (if val = None \<or> val = Some JNull then Inr []
      else (case val of Some (JStr s) \<Rightarrow> Inr s | _ \<Rightarrow> String_of B val))"

text \<open>
  \<open>a || b\<close> where \<open>a\<close> is a string that may have thrown: a non-empty \<open>a\<close> is the
  result, and \<open>b\<close> is not evaluated.
\<close>

definition str_or :: "error + string \<Rightarrow> error + string \<Rightarrow> error + string" where
  "str_or a b = (case a of Inl e \<Rightarrow> Inl e | Inr s \<Rightarrow> if s \<noteq> [] then Inr s else b)"

text \<open>The loop of \<open>safeNum\<close> over the keys, on an object.\<close>

fun safeNum_keys :: "builtins \<Rightarrow> json \<Rightarrow> string list \<Rightarrow> error + jsnum" where
  "safeNum_keys B obj [] = Inr (Fin 0)"
| "safeNum_keys B obj (key # keys) =
     (let val = get_prop obj key in
      if val \<noteq> None \<and> val \<noteq> Some JNull then
        (case Number_of B val of
           Inl e \<Rightarrow> Inl e
         | Inr num \<Rightarrow> if num \<noteq> NaN then Inr num else safeNum_keys B obj keys)
      else safeNum_keys B obj keys)"

definition safeNum :: "builtins \<Rightarrow> jsval \<Rightarrow> string list \<Rightarrow> error + jsnum" where
  "safeNum B obj keys =
     (if \<not> truthy obj \<or> \<not> typeof_object obj then Inr (Fin 0)
      else safeNum_keys B (the obj) keys)"

text \<open>
  \<open>a || b\<close> where \<open>a\<close> is a number that may have thrown: a number that is neither
  zero nor NaN is the result, and \<open>b\<close> is not evaluated.
\<close>

definition num_or :: "error + jsnum \<Rightarrow> error + jsnum \<Rightarrow> error + jsnum" where
  "num_or a b = (case a of Inl e \<Rightarrow> Inl e | Inr n \<Rightarrow> if num_truthy n then Inr n else b)"

text \<open>\<open>typeof val === "string" && val.startsWith("http")\<close>.\<close>

fun http_string :: "jsval \<Rightarrow> bool" where
  "http_string (Some (JStr s)) = (take 4 s = ''http'')"
| "http_string _ = False"

text \<open>
  The first loop of \<open>buildNoteUrl\<close>, over the objects and the keys \<open>note_url\<close>,
  \<open>noteUrl\<close>, \<open>url\<close>.
\<close>

fun direct_url :: "json list \<Rightarrow> string option" where
  "direct_url [] = None"
| "direct_url (obj # objs) =
     (if http_string (get_prop obj ''note_url'') then
        (case get_prop obj ''note_url'' of Some (JStr s) \<Rightarrow> Some s | _ \<Rightarrow> None)
      else if http_string (get_prop obj ''noteUrl'') then
        (case get_prop obj ''noteUrl'' of Some (JStr s) \<Rightarrow> Some s | _ \<Rightarrow> None)
      else if http_string (get_prop obj ''url'') then
        (case get_prop obj ''url'' of Some (JStr s) \<Rightarrow> Some s | _ \<Rightarrow> None)
      else direct_url objs)"

text \<open>
  \<open>buildNoteUrl(note, inner)\<close>. Both arguments are objects or arrays. The template
  literal converts \<open>urlname\<close>, then \<open>key\<close>, to text. A truthy \<open>href\<close> that is not a
  string has no method \<open>startsWith\<close>, and the call throws.
\<close>

definition buildNoteUrl :: "builtins \<Rightarrow> json \<Rightarrow> json \<Rightarrow> error + string" where
  "buildNoteUrl B note inner =
     (case direct_url [inner, note] of
        Some s \<Rightarrow> Inr s
      | None \<Rightarrow>
          let key = js_or (get_prop inner ''key'') (js_or (get_prop note ''key'')
                      (js_or (get_prop inner ''slug'') (js_or (get_prop note ''slug'')
                         (Some (JStr [])))));
              user = js_or (get_prop inner ''user'') (js_or (get_prop note ''user'')
                       (Some (JObj [])));
              urlname = js_or (if typeof_object user then get_prop (the user) ''urlname''
                               else Some (JStr []))
                          (js_or (get_prop inner ''urlname'') (js_or (get_prop note ''urlname'')
                             (Some (JStr []))));
              href = js_or (get_prop inner ''href'') (js_or (get_prop note ''href'')
                       (Some (JStr [])))
          in
          if truthy key \<and> truthy urlname then
            (case String_of B urlname of
               Inl e \<Rightarrow> Inl e
             | Inr u \<Rightarrow>
                 (case String_of B key of
                    Inl e \<Rightarrow> Inl e
                  | Inr k \<Rightarrow> Inr (''https://note.com/'' @ u @ ''/n/'' @ k)))
          else if truthy href then
            (case href of
               Some (JStr h) \<Rightarrow> Inr (if take 4 h = ''http'' then h else ''https://note.com'' @ h)
             | _ \<Rightarrow> Inl TypeError)
          else Inr [])"

text \<open>
  The first loop of \<open>findCreatorName\<close>: the \<open>user\<close> of each object, when it is an
  object or an array with a truthy name.
\<close>

fun user_name :: "builtins \<Rightarrow> json list \<Rightarrow> (error + string) option" where
  "user_name B [] = None"
| "user_name B (obj # objs) =
     (let user = get_prop obj ''user'' in
      if truthy user \<and> typeof_object user then
        (let name = js_or (get_prop (the user) ''nickname'') (js_or (get_prop (the user) ''name'')
                      (js_or (get_prop (the user) ''urlname'') (get_prop (the user) ''display_name'')))
         in if truthy name then Some (String_of B name) else user_name B objs)
      else user_name B objs)"

text \<open>The second loop of \<open>findCreatorName\<close>, over the flat string fields.\<close>

fun flat_name_keys :: "builtins \<Rightarrow> json \<Rightarrow> string list \<Rightarrow> (error + string) option" where
  "flat_name_keys B obj [] = None"
| "flat_name_keys B obj (key # keys) =
     (if truthy (get_prop obj key) then Some (String_of B (get_prop obj key))
      else flat_name_keys B obj keys)"

fun flat_name :: "builtins \<Rightarrow> json list \<Rightarrow> (error + string) option" where
  "flat_name B [] = None"
| "flat_name B (obj # objs) =
     (case flat_name_keys B obj [''creator_name'', ''creatorName'', ''author_name'', ''authorName''] of
        Some r \<Rightarrow> Some r
      | None \<Rightarrow> flat_name B objs)"

definition findCreatorName :: "builtins \<Rightarrow> json \<Rightarrow> json \<Rightarrow> error + string" where
  "findCreatorName B note inner =
     (case user_name B [inner, note] of
        Some r \<Rightarrow> r
      | None \<Rightarrow> (case flat_name B [inner, note] of Some r \<Rightarrow> r | None \<Rightarrow> Inr []))"

text \<open>The candidate names of the engagement count and of the price.\<close>

definition like_keys :: "string list" where
  "like_keys = [''like_count'', ''likeCount'', ''likes_count'', ''likesCount'',
                ''sp_count'', ''spCount'', ''suki_count'', ''sukiCount'']"

definition price_keys :: "string list" where
  "price_keys = [''price'', ''amount'', ''body_price'', ''bodyPrice'']"

text \<open>\<open>Number(n) || 0\<close> for a number \<open>n\<close>.\<close>

definition or_zero :: "jsnum \<Rightarrow> jsnum" where
  "or_zero n = (if num_truthy n then n else Fin 0)"

text \<open>The inner view: \<open>note.note\<close> when it is an object or an array, else \<open>note\<close>.\<close>

definition inner_of :: "json \<Rightarrow> json" where
  "inner_of note =
     (if truthy (get_prop note ''note'') \<and> typeof_object (get_prop note ''note'')
      then the (get_prop note ''note'') else note)"

text \<open>
  \<open>extractArticleFromNote(note)\<close>: \<open>Inr None\<close> is the result \<open>null\<close>, \<open>Inl\<close> an
  exception. The comparison \<open>price === "\<dots>"\<close> of the source is between a number and a
  string and never holds.
\<close>

definition extractArticleFromNote :: "builtins \<Rightarrow> jsval \<Rightarrow> error + article option" where
  "extractArticleFromNote B nv =
     (if \<not> truthy nv \<or> \<not> typeof_object nv then Inr None
      else
        let note = the nv; inner = inner_of note in
        (case str_or (safeStr B (get_prop inner ''name'')) (str_or (safeStr B (get_prop note ''name''))
               (str_or (safeStr B (get_prop inner ''title'')) (str_or (safeStr B (get_prop note ''title''))
               (str_or (safeStr B (get_prop inner ''headline'')) (str_or (safeStr B (get_prop note ''headline''))
               (Inr [])))))) of
           Inl e \<Rightarrow> Inl e
         | Inr t \<Rightarrow>
        (case num_or (safeNum B (Some inner) like_keys) (safeNum B (Some note) like_keys) of
           Inl e \<Rightarrow> Inl e
         | Inr lc \<Rightarrow>
        (case num_or (safeNum B (Some inner) price_keys) (safeNum B (Some note) price_keys) of
           Inl e \<Rightarrow> Inl e
         | Inr pr \<Rightarrow>
        (case buildNoteUrl B note inner of
           Inl e \<Rightarrow> Inl e
         | Inr u \<Rightarrow>
        (case findCreatorName B note inner of
           Inl e \<Rightarrow> Inl e
         | Inr c \<Rightarrow>
             Inr (Some \<lparr>title = t, likeCount = or_zero lc, price = or_zero pr, url = u,
                        creator = c, likeRating = None\<rparr>)))))))"

text \<open>
  The loop of \<open>extractNotesFromApiResponse\<close>: an item that throws, that is not an
  object or whose title is empty is skipped.
\<close>

fun collect_articles :: "builtins \<Rightarrow> json list \<Rightarrow> article list" where
  "collect_articles B [] = []"
| "collect_articles B (x # xs) =
     (case extractArticleFromNote B (Some x) of
        Inr (Some a) \<Rightarrow>
          if title a \<noteq> [] then a # collect_articles B xs else collect_articles B xs
      | _ \<Rightarrow> collect_articles B xs)"

definition extractNotesFromApiResponse :: "builtins \<Rightarrow> jsval \<Rightarrow> article list" where
  "extractNotesFromApiResponse B data =
     (let noteObjects = findNotesArray data in
      if noteObjects = [] then [] else collect_articles B noteObjects)"

section \<open>Session state and the network\<close>

datatype status = Idle | Scraping | Completed | Error

record scraping_state =
  status :: status
  current :: nat
  targetCount :: nat
  articles :: "article list"
  message :: string

text \<open>
  A request, by the parts its URL is built from: the search endpoint with \<open>q\<close>,
  \<open>context\<close>, \<open>size\<close>, \<open>start\<close> and \<open>sort\<close> (empty when the URL has no \<open>sort\<close>),
  the detail endpoint with the key of the note, and the page of an article with its URL.
\<close>

datatype request =
    SearchApi string string nat nat string
  | NoteApi string
  | PageGet string

text \<open>
  The body of a response is a text. The source reads it through \<open>JSON.parse\<close> and
  through four regular expressions, and the model keeps what these readers give:
  \<^item> \<open>decoded\<close>: the value \<open>JSON.parse\<close> returns, \<open>None\<close> when it throws;
  \<^item> \<open>rating_text\<close>: the number before the text that says how many people rated the
    article highly (pattern 1), read by \<open>parseInt\<close>;
  \<^item> \<open>next_data\<close>: the content of the script tag \<open>__NEXT_DATA__\<close> (pattern 2), itself
    decoded: \<open>None\<close> without that tag, \<open>Some None\<close> when its content is not JSON;
  \<^item> \<open>nuxt_field\<close>: the number of the first rating field inside the \<open>__NUXT__\<close> blob
    (pattern 3);
  \<^item> \<open>html_field\<close>: the number of the first quoted rating field anywhere in the text
    (pattern 4).
  \<open>parseInt\<close> of a run of digits is a natural number.
\<close>

record body =
  decoded :: "json option"
  rating_text :: "nat option"
  next_data :: "json option option"
  nuxt_field :: "nat option"
  html_field :: "nat option"

text \<open>
  What \<open>fetch\<close> gives: a rejected promise, a response whose \<open>ok\<close> is false, or a
  response with a body.
\<close>

datatype response = Rejected | NotOk | Ok body

section \<open>API Harvester\<close>

record search_params =
  param_q :: string
  param_context :: string
  param_mode :: string
  param_sort :: string

text \<open>\<open>url.searchParams.get(name) || dflt\<close>: \<open>get\<close> is \<open>null\<close> for a missing name.\<close>

definition param_or :: "string option \<Rightarrow> string \<Rightarrow> string" where
  "param_or v dflt = (case v of None \<Rightarrow> dflt | Some s \<Rightarrow> if s \<noteq> [] then s else dflt)"

text \<open>\<open>getSearchParams()\<close>; \<open>query\<close> is \<open>searchParams.get\<close> of the page's URL.\<close>

definition getSearchParams :: "(string \<Rightarrow> string option) \<Rightarrow> search_params" where
  "getSearchParams query =
     \<lparr>param_q = param_or (query ''q'') [],
      param_context = param_or (query ''context'') ''note'',
      param_mode = param_or (query ''mode'') ''search'',
      param_sort = param_or (query ''sort'') []\<rparr>"

definition PAGE_SIZE :: nat where
  "PAGE_SIZE = 20"

text \<open>The loop that pushes the articles of a page until the target is reached.\<close>

fun push_upto :: "nat \<Rightarrow> article list \<Rightarrow> article list \<Rightarrow> article list" where
  "push_upto target arts [] = arts"
| "push_upto target arts (p # ps) =
     (if target \<le> length arts then arts else push_upto target (arts @ [p]) ps)"

text \<open>\<open>articles.length > 0 ? articles : null\<close>.\<close>

definition nonempty_or_null :: "article list \<Rightarrow> article list option" where
  "nonempty_or_null arts = (if arts \<noteq> [] then Some arts else None)"

text \<open>The loop pushes the first articles of the page that fit under the target.\<close>

lemma push_upto_take: "push_upto target arts ps = arts @ take (target - length arts) ps"
  by (induction target arts ps rule: push_upto.induct) (auto simp: take_Cons' Suc_diff_le)

lemma push_upto_grows:
  "length arts < target \<Longrightarrow> ps \<noteq> [] \<Longrightarrow>
     target - length (push_upto target arts ps) < target - length arts"
  by (cases ps) (auto simp: push_upto_take min_def)

text \<open>
  The \<open>while\<close> loop of \<open>fetchFromAPI\<close>. The result is the returned value (\<open>None\<close>
  is \<open>null\<close>), the session state, whose \<open>current\<close> the loop writes, and the requests
  issued so far, in order.
\<close>

function api_loop ::
  "builtins \<Rightarrow> (request \<Rightarrow> response) \<Rightarrow> search_params \<Rightarrow> nat \<Rightarrow> article list \<Rightarrow> nat \<Rightarrow>
   scraping_state \<Rightarrow> request list \<Rightarrow> article list option \<times> scraping_state \<times> request list" where
  "api_loop B server params target arts start st reqs =
     (if length arts < target then
        (let rq = SearchApi (param_q params) (param_context params) PAGE_SIZE start
                    (param_sort params)
         in case server rq of
              Rejected \<Rightarrow> (None, st, reqs @ [rq])
            | NotOk \<Rightarrow> (None, st, reqs @ [rq])
            | Ok b \<Rightarrow>
                (case decoded b of
                   None \<Rightarrow> (None, st, reqs @ [rq])
                 | Some data \<Rightarrow>
                     (let parsedArticles = extractNotesFromApiResponse B (Some data) in
                      if parsedArticles = [] then (nonempty_or_null arts, st, reqs @ [rq])
                      else api_loop B server params target (push_upto target arts parsedArticles)
                             (start + PAGE_SIZE)
                             (st\<lparr>current := length (push_upto target arts parsedArticles)\<rparr>)
                             (reqs @ [rq]))))
      else (nonempty_or_null arts, st, reqs))"
  by pat_completeness auto
termination
  apply (relation "measure (\<lambda>(B, server, params, target, arts, start, st, reqs). target - length arts)")
   apply simp
  apply (simp add: push_upto_grows)
  done

declare api_loop.simps [simp del]

text \<open>\<open>fetchFromAPI(targetCount)\<close>.\<close>

definition fetchFromAPI ::
  "builtins \<Rightarrow> (string \<Rightarrow> string option) \<Rightarrow> (request \<Rightarrow> response) \<Rightarrow> nat \<Rightarrow> scraping_state \<Rightarrow>
   article list option \<times> scraping_state \<times> request list" where
  "fetchFromAPI B query server target st =
     (let params = getSearchParams query in
      if param_q params = [] then (None, st, [])
      else api_loop B server params target [] 0 st [])"

section \<open>Rating Enricher\<close>

definition ratingFieldCandidates :: "string list" where
  "ratingFieldCandidates =
     [''rating_count'', ''ratingCount'', ''recommend_count'', ''recommendCount'',
      ''evaluation_count'', ''evaluationCount'', ''high_rating_count'', ''highRatingCount'',
      ''buyer_like_count'', ''buyerLikeCount'', ''purchase_like_count'', ''purchaseLikeCount'']"

text \<open>\<open>Object.values(v)\<close> for an object or an array.\<close>

fun values_of :: "json \<Rightarrow> json list" where
  "values_of (JObj kvs) = map snd kvs"
| "values_of (JArr xs) = xs"
| "values_of _ = []"

text \<open>
  The first loop of \<open>findRatingInObject\<close>, over the candidate fields of one object:
  \<open>Some\<close> is the number it returns, \<open>None\<close> the end of the loop.
\<close>

fun rating_direct :: "builtins \<Rightarrow> json \<Rightarrow> string list \<Rightarrow> error + jsnum option" where
  "rating_direct B obj [] = Inr None"
| "rating_direct B obj (key # keys) =
     (if get_prop obj key \<noteq> None \<and> get_prop obj key \<noteq> Some JNull then
        (case Number_of B (get_prop obj key) of
           Inl e \<Rightarrow> Inl e
         | Inr num \<Rightarrow> if num \<noteq> NaN \<and> num_pos num then Inr (Some num)
                      else rating_direct B obj keys)
      else rating_direct B obj keys)"

text \<open>The values of an object or an array are smaller than it.\<close>

lemma size_values_of:
  "truthy (Some j) \<Longrightarrow> typeof_object (Some j) \<Longrightarrow> size_list size (values_of j) < size j"
proof (cases j)
  case (JObj kvs)
  have "size_list size (map snd kvs) \<le> size_list (size_prod (\<lambda>_. 0) size) kvs"
    by (induction kvs) auto
  with JObj show ?thesis by simp
qed auto

text \<open>\<open>if (depth === undefined) depth = 0\<close>: the depth after this line.\<close>

definition depth_or_zero :: "nat option \<Rightarrow> nat" where
  "depth_or_zero depth0 = (case depth0 of None \<Rightarrow> 0 | Some d \<Rightarrow> d)"

text \<open>
  \<open>findRatingInObject(obj, fieldCandidates, depth)\<close>; \<open>depth0 = None\<close> is the call
  with two arguments. \<open>rating_children\<close> is its second loop, over \<open>Object.values\<close>.
\<close>

function (sequential) findRatingInObject :: "builtins \<Rightarrow> jsval \<Rightarrow> string list \<Rightarrow> nat option \<Rightarrow> error + jsnum"
  and rating_children :: "builtins \<Rightarrow> json list \<Rightarrow> string list \<Rightarrow> nat \<Rightarrow> error + jsnum" where
  "findRatingInObject B obj fieldCandidates depth0 =
     (if \<not> truthy obj \<or> \<not> typeof_object obj \<or> 3 < depth_or_zero depth0 then Inr (Fin 0)
      else (case rating_direct B (the obj) fieldCandidates of
              Inl e \<Rightarrow> Inl e
            | Inr (Some num) \<Rightarrow> Inr num
            | Inr None \<Rightarrow>
                rating_children B (values_of (the obj)) fieldCandidates (depth_or_zero depth0)))"
| "rating_children B [] fieldCandidates depth = Inr (Fin 0)"
| "rating_children B (val # vals) fieldCandidates depth =
     (if truthy (Some val) \<and> typeof_object (Some val) \<and> \<not> isArray (Some val) then
        (case findRatingInObject B (Some val) fieldCandidates (Some (depth + 1)) of
           Inl e \<Rightarrow> Inl e
         | Inr found \<Rightarrow> if num_pos found then Inr found
                        else rating_children B vals fieldCandidates depth)
      else rating_children B vals fieldCandidates depth)"
  by pat_completeness auto
termination
  apply (relation "measure (\<lambda>x. case x of
            Inl (B, obj, c, d) \<Rightarrow> (case obj of Some j \<Rightarrow> size j | None \<Rightarrow> 0)
          | Inr (B, vs, c, d) \<Rightarrow> size_list size vs)")
      apply simp
     apply (case_tac obj; simp add: size_values_of)
    apply simp_all
  done

declare findRatingInObject.simps [simp del]









section \<open>Scroll Collector\<close>

definition MAX_RETRIES :: nat where
  "MAX_RETRIES = 15"

text \<open>
  The loop of \<open>autoScrollAndCollect\<close>. \<open>snapshots i\<close> is what \<open>collectArticlesFromDom()\<close>
  returns at its call number \<open>i\<close>, that is after \<open>i\<close> scrolls. The result is the session
  state when the function returns; a loop that never ends is \<open>None\<close>.
\<close>

partial_function (option) scroll_loop ::
  "(nat \<Rightarrow> article list) \<Rightarrow> nat \<Rightarrow> nat \<Rightarrow> nat \<Rightarrow> nat \<Rightarrow> scraping_state \<Rightarrow> scraping_state option" where
  "scroll_loop snapshots target i lastArticleCount noNewArticleRetries st =
     (if status st = Scraping then
        (if target \<le> length (snapshots i) then
           Some (st\<lparr>articles := take target (snapshots i), current := target\<rparr>)
         else if length (snapshots i) = lastArticleCount then
           (if MAX_RETRIES \<le> noNewArticleRetries + 1 then
              Some (st\<lparr>articles := snapshots i, current := length (snapshots i)\<rparr>)
            else scroll_loop snapshots target (i + 1) (length (snapshots i)) (noNewArticleRetries + 1)
                   (st\<lparr>articles := snapshots i, current := length (snapshots i)\<rparr>))
         else scroll_loop snapshots target (i + 1) (length (snapshots i)) 0
                (st\<lparr>articles := snapshots i, current := length (snapshots i)\<rparr>))
      else Some st)"

definition autoScrollAndCollect ::
  "(nat \<Rightarrow> article list) \<Rightarrow> nat \<Rightarrow> scraping_state \<Rightarrow> scraping_state option" where
  "autoScrollAndCollect snapshots target st = scroll_loop snapshots target 0 0 0 st"

section \<open>Export Encoder\<close>

text \<open>The quotation mark, the comma and the line feed.\<close>

definition dquote :: char where
  "dquote = CHR 0x22"

definition comma :: char where
  "comma = CHR 0x2C"

definition newline :: char where
  "newline = CHR 0x0A"

text \<open>\<open>str.replace(/"/g, '""')\<close>.\<close>

fun double_quotes :: "string \<Rightarrow> string" where
  "double_quotes [] = []"
| "double_quotes (c # cs) =
     (if c = dquote then dquote # dquote # double_quotes cs else c # double_quotes cs)"

text \<open>\<open>escapeCsvField(value)\<close>.\<close>

definition escapeCsvField :: "builtins \<Rightarrow> jsval \<Rightarrow> error + string" where
  "escapeCsvField B v =
     (if \<not> truthy v then Inr [dquote, dquote]
      else (case String_of B v of
              Inl e \<Rightarrow> Inl e
            | Inr str \<Rightarrow>
                if dquote \<in> set str \<or> comma \<in> set str \<or> newline \<in> set str
                then Inr ([dquote] @ double_quotes str @ [dquote])
                else Inr ([dquote] @ str @ [dquote])))"

text \<open>\<open>xs.join(sep)\<close> on strings.\<close>

fun join :: "string \<Rightarrow> string list \<Rightarrow> string" where
  "join sep [] = []"
| "join sep [x] = x"
| "join sep (x # y # ys) = x @ sep @ join sep (y # ys)"

text \<open>
  The six fields of the row of one article in \<open>downloadCSV\<close>. The title, the URL and
  the creator of an article are strings.
\<close>

definition csv_row :: "builtins \<Rightarrow> article \<Rightarrow> error + string list" where
  "csv_row B a =
     (case escapeCsvField B (Some (JStr (title a))) of
        Inl e \<Rightarrow> Inl e
      | Inr t \<Rightarrow>
     (case escapeCsvField B (Some (JStr (url a))) of
        Inl e \<Rightarrow> Inl e
      | Inr u \<Rightarrow>
     (case escapeCsvField B (Some (JStr (creator a))) of
        Inl e \<Rightarrow> Inl e
      | Inr c \<Rightarrow>
          Inr [t,
               numToString B (likeCount a),
               numToString B (case likeRating a of
                                None \<Rightarrow> Fin 0
                              | Some r \<Rightarrow> if num_truthy r then r else Fin 0),
               numToString B (price a),
               u,
               c])))"

text \<open>\<open>articles.map(...)\<close>: the rows, or the first exception.\<close>

fun csv_rows :: "builtins \<Rightarrow> article list \<Rightarrow> error + string list list" where
  "csv_rows B [] = Inr []"
| "csv_rows B (a # as) =
     (case csv_row B a of
        Inl e \<Rightarrow> Inl e
      | Inr r \<Rightarrow> (case csv_rows B as of Inl e \<Rightarrow> Inl e | Inr rs \<Rightarrow> Inr (r # rs)))"

text \<open>
  The six column titles of \<open>headers\<close>, in UTF-8: the title, the engagement count, the
  rating count, the price, the URL of the article and the name of the creator.
\<close>

definition csv_headers :: "string list" where
  "csv_headers =
     [[CHR 0xE3, CHR 0x82, CHR 0xBF, CHR 0xE3, CHR 0x82, CHR 0xA4, CHR 0xE3, CHR 0x83,
       CHR 0x88, CHR 0xE3, CHR 0x83, CHR 0xAB],
      [CHR 0xE3, CHR 0x82, CHR 0xB9, CHR 0xE3, CHR 0x82, CHR 0xAD, CHR 0xE6, CHR 0x95,
       CHR 0xB0],
      [CHR 0xE9, CHR 0xAB, CHR 0x98, CHR 0xE8, CHR 0xA9, CHR 0x95, CHR 0xE4, CHR 0xBE,
       CHR 0xA1, CHR 0xE6, CHR 0x95, CHR 0xB0],
      [CHR 0xE5, CHR 0x8D, CHR 0x98, CHR 0xE4, CHR 0xBE, CHR 0xA1],
      [CHR 0xE8, CHR 0xA8, CHR 0x98, CHR 0xE4, CHR 0xBA, CHR 0x8B, CHR ''U'', CHR ''R'',
       CHR ''L''],
      [CHR 0xE3, CHR 0x82, CHR 0xAF, CHR 0xE3, CHR 0x83, CHR 0xAA, CHR 0xE3, CHR 0x82,
       CHR 0xA8, CHR 0xE3, CHR 0x82, CHR 0xA4, CHR 0xE3, CHR 0x82, CHR 0xBF, CHR 0xE3,
       CHR 0x83, CHR 0xBC, CHR 0xE5, CHR 0x90, CHR 0x8D]]"

text \<open>
  The text \<open>downloadCSV\<close> hands to the \<open>Blob\<close>: the byte-order mark \<open>U+FEFF\<close>
  (three bytes in UTF-8), the header line and one line for each article.
\<close>

definition bom :: string where
  "bom = [CHR 0xEF, CHR 0xBB, CHR 0xBF]"

definition downloadCSV :: "builtins \<Rightarrow> article list \<Rightarrow> error + string" where
  "downloadCSV B arts =
     (case csv_rows B arts of
        Inl e \<Rightarrow> Inl e
      | Inr rows \<Rightarrow>
          Inr (bom @ join [newline] (join [comma] csv_headers # map (join [comma]) rows)))"

section \<open>Session State Machine\<close>

text \<open>The messages of the popup, and what \<open>sendResponse\<close> is called with.\<close>

datatype msg = StartScraping nat | GetProgress | OtherAction

datatype reply =
    AlreadyRunning
  | Started
  | Progress status nat nat string

text \<open>
  The listener of \<open>chrome.runtime.onMessage\<close>, up to its call of \<open>sendResponse\<close>: the
  reply, if any, and the session state at that moment. After \<open>Started\<close> the listener
  launches the run, which writes the state from then on.
\<close>

definition onMessage :: "msg \<Rightarrow> scraping_state \<Rightarrow> reply option \<times> scraping_state" where
  "onMessage m scrapingState =
     (case m of
        StartScraping count \<Rightarrow>
          if status scrapingState = Scraping then (Some AlreadyRunning, scrapingState)
          else (Some Started,
                \<lparr>status = Scraping, current = 0, targetCount = count, articles = [],
                 message = []\<rparr>)
      | GetProgress \<Rightarrow>
          (Some (Progress (status scrapingState) (current scrapingState)
                   (targetCount scrapingState) (message scrapingState)),
           scrapingState)
      | OtherAction \<Rightarrow> (None, scrapingState))"

section \<open>An instance of the built-ins\<close>

text \<open>
  The conversions between numbers and texts on the integers: \<open>String\<close> of an integer
  below \<open>10\<^sup>2\<^sup>1\<close> is its decimal numeral, and a string of decimal digits, with or without
  a minus sign, parses to that integer; the empty string parses to 0. The examples below
  contain no other number and no other numeric string.
\<close>

definition int_text :: "int \<Rightarrow> string" where
  "int_text i = (if i < 0 then CHR ''-'' # nat_to_dec (nat (- i)) else nat_to_dec (nat i))"

fun decimal_text :: "jsnum \<Rightarrow> string" where
  "decimal_text NaN = ''NaN''"
| "decimal_text PosInf = ''Infinity''"
| "decimal_text NegInf = ''-Infinity''"
| "decimal_text (Fin r) = int_text \<lfloor>r\<rfloor>"

definition digit_value :: "char \<Rightarrow> nat option" where
  "digit_value c =
     (if c \<in> set ''0123456789'' then Some (of_char c - 48) else None)"

fun digits_value :: "nat \<Rightarrow> string \<Rightarrow> nat option" where
  "digits_value acc [] = Some acc"
| "digits_value acc (c # cs) =
     (case digit_value c of None \<Rightarrow> None | Some d \<Rightarrow> digits_value (10 * acc + d) cs)"

definition decimal_number :: "string \<Rightarrow> jsnum" where
  "decimal_number s =
     (if s = [] then Fin 0
      else if hd s = CHR ''-'' \<and> tl s \<noteq> [] then
        (case digits_value 0 (tl s) of None \<Rightarrow> NaN | Some n \<Rightarrow> Fin (- of_nat n))
      else (case digits_value 0 s of None \<Rightarrow> NaN | Some n \<Rightarrow> Fin (of_nat n)))"

definition decimal_builtins :: builtins where
  "decimal_builtins = \<lparr>numToString = decimal_text, stringToNumber = decimal_number\<rparr>"

section \<open>The priority order of the locator, as a list of candidates\<close>

text \<open>
  The candidates of the locator in their priority order: the nine paths, \<open>data\<close>
  itself, each property of \<open>data\<close> when \<open>data\<close> is an object that is not an array, each
  top-level property other than \<open>data\<close>. The flag of a candidate says whether its first
  element has to be an object: the source asks this of the properties it enumerates, not
  of the paths nor of \<open>data\<close>.
\<close>

definition candidates :: "jsval \<Rightarrow> (bool \<times> jsval) list" where
  "candidates data =
     map (Pair False) (paths data)
     @ [(False, oprop data ''data'')]
     @ (if truthy (oprop data ''data'') \<and> typeof_object (oprop data ''data'')
           \<and> \<not> isArray (oprop data ''data'')
        then map (\<lambda>(k, v). (True, Some v)) (entries (oprop data ''data'')) else [])
     @ map (\<lambda>(k, v). (True, Some v)) (filter (\<lambda>(k, v). k \<noteq> ''data'') (entries data))"

fun eligible :: "bool \<times> jsval \<Rightarrow> bool" where
  "eligible (strict, v) = (if strict then object_array v else nonempty_array v)"

text \<open>The first eligible candidate, or the empty sequence.\<close>

definition first_match :: "jsval \<Rightarrow> json list" where
  "first_match data =
     (case find eligible (candidates data) of Some (strict, v) \<Rightarrow> elems v | None \<Rightarrow> [])"

text \<open>
  The same search when every candidate has to be a non-empty array whose first element
  is a non-null object.
\<close>

definition first_object_array :: "jsval \<Rightarrow> json list" where
  "first_object_array data =
     (case find (\<lambda>(strict, v). object_array v) (candidates data) of
        Some (strict, v) \<Rightarrow> elems v
      | None \<Rightarrow> [])"

text \<open>
  A response with an array of numbers under the path \<open>data.notes\<close> and an array of
  objects under \<open>items\<close>.
\<close>

definition numbers_then_objects :: json where
  "numbers_then_objects =
     JObj [(''data'', JObj [(''notes'', JArr [JNum (Fin 1), JNum (Fin 2)])]),
           (''items'', JArr [JObj [(''name'', JStr ''A'')]])]"

text \<open>A response with arrays of objects under two paths and under an unknown key.\<close>

definition three_arrays :: json where
  "three_arrays =
     JObj [(''other'', JArr [JObj [(''name'', JStr ''C'')]]),
           (''items'', JArr [JObj [(''name'', JStr ''B'')]]),
           (''data'', JObj [(''contents'', JArr [JObj [(''name'', JStr ''A'')]])])]"

section \<open>Examples of session states and of the network\<close>

definition idle_state :: scraping_state where
  "idle_state = \<lparr>status = Idle, current = 0, targetCount = 0, articles = [], message = []\<rparr>"

definition sample_article :: article where
  "sample_article =
     \<lparr>title = ''A'', likeCount = Fin 42, price = Fin 500, url = ''https://note.com/u/n/n1'',
      creator = ''C'', likeRating = None\<rparr>"

text \<open>A run in progress: seven articles collected out of ten.\<close>

definition running_state :: scraping_state where
  "running_state =
     \<lparr>status = Scraping, current = 7, targetCount = 10,
      articles = replicate 7 sample_article, message = ''...''\<rparr>"

text \<open>A network on which every request is rejected.\<close>

definition offline :: "request \<Rightarrow> response" where
  "offline rq = Rejected"

section \<open>The objects the rating search can reach\<close>

text \<open>
  A child the second loop of \<open>findRatingInObject\<close> descends into: an object that is
  not an array.
\<close>

fun plain_object :: "json \<Rightarrow> bool" where
  "plain_object (JObj kvs) = True"
| "plain_object _ = False"

text \<open>
  The values nested at most \<open>k\<close> levels of objects deep inside \<open>j\<close>: \<open>j\<close> itself and,
  level by level, the values of its properties that are objects.
\<close>

fun nested_upto :: "nat \<Rightarrow> json \<Rightarrow> json list" where
  "nested_upto 0 j = [j]"
| "nested_upto (Suc k) j = j # concat (map (nested_upto k) (filter plain_object (values_of j)))"

text \<open>A candidate field that is neither missing nor \<open>null\<close>.\<close>

definition has_candidate :: "json \<Rightarrow> string list \<Rightarrow> bool" where
  "has_candidate obj keys =
     list_ex (\<lambda>key. get_prop obj key \<noteq> None \<and> get_prop obj key \<noteq> Some JNull) keys"

text \<open>A candidate field whose value converts to a positive number.\<close>

definition positive_candidate :: "builtins \<Rightarrow> json \<Rightarrow> string list \<Rightarrow> bool" where
  "positive_candidate B obj keys =
     list_ex (\<lambda>key. get_prop obj key \<noteq> None \<and> get_prop obj key \<noteq> Some JNull
                \<and> (case Number_of B (get_prop obj key) of
                      Inr n \<Rightarrow> num_pos n
                    | Inl e \<Rightarrow> False)) keys"

text \<open>A candidate field whose value converts to the number \<open>r\<close>.\<close>

definition field_number :: "builtins \<Rightarrow> json \<Rightarrow> string list \<Rightarrow> jsnum \<Rightarrow> bool" where
  "field_number B obj keys r = list_ex (\<lambda>key. Number_of B (get_prop obj key) = Inr r) keys"

text \<open>Every candidate field converts to a number without throwing.\<close>

definition coercible :: "builtins \<Rightarrow> json \<Rightarrow> string list \<Rightarrow> bool" where
  "coercible B obj keys =
     list_all (\<lambda>key. case Number_of B (get_prop obj key) of Inr n \<Rightarrow> True | Inl e \<Rightarrow> False) keys"

text \<open>A rating field under chains of two and of four keys.\<close>

definition two_deep :: json where
  "two_deep = JObj [(''a'', JObj [(''b'', JObj [(''rating_count'', JNum (Fin 7))])])]"

definition four_deep :: json where
  "four_deep =
     JObj [(''a'', JObj [(''b'', JObj [(''c'', JObj [(''d'',
       JObj [(''rating_count'', JNum (Fin 99))])])])])]"

text \<open>
  A blob with a rating field of 0 at the top and a rating field of 99 four levels deep.
\<close>

definition zero_then_deep :: json where
  "zero_then_deep =
     JObj [(''rating_count'', JNum (Fin 0)),
           (''a'', JObj [(''b'', JObj [(''c'', JObj [(''d'',
              JObj [(''rating_count'', JNum (Fin 99))])])])])]"

text \<open>
  A blob with a rating field of 7 under a chain of two keys, beside a rating field at the
  top that holds an object with a property \<open>toString\<close>, as
  \<open>{"rating_count": {"toString": 1}, "a": {"b": {"rating_count": 7}}}\<close> decodes.
\<close>

definition throwing_blob :: json where
  "throwing_blob =
     JObj [(''rating_count'', JObj [(''toString'', JNum (Fin 1))]),
           (''a'', JObj [(''b'', JObj [(''rating_count'', JNum (Fin 7))])])]"

section \<open>The order of the candidate fields of the normalizer\<close>

text \<open>
  A value that counts as a number for \<open>safeNum\<close>: neither missing nor \<open>null\<close>, and
  converted by \<open>Number\<close> to something other than NaN.
\<close>

definition valid_number :: "builtins \<Rightarrow> jsval \<Rightarrow> bool" where
  "valid_number B val =
     (val \<noteq> None \<and> val \<noteq> Some JNull
      \<and> (case Number_of B val of Inr n \<Rightarrow> n \<noteq> NaN | Inl e \<Rightarrow> False))"

text \<open>
  The value of the first candidate name, in the order of the list, that holds a valid
  number; \<open>None\<close> when no candidate does.
\<close>

definition first_valid :: "builtins \<Rightarrow> json \<Rightarrow> string list \<Rightarrow> jsval" where
  "first_valid B obj keys =
     (case find (\<lambda>key. valid_number B (get_prop obj key)) keys of
        Some key \<Rightarrow> get_prop obj key
      | None \<Rightarrow> None)"

text \<open>
  The candidates of the title in the order the source tries them: each name on the
  inner view, then on the outer item, before the next name.
\<close>

definition title_candidates :: "json \<Rightarrow> jsval list" where
  "title_candidates note =
     [get_prop (inner_of note) ''name'', get_prop note ''name'',
      get_prop (inner_of note) ''title'', get_prop note ''title'',
      get_prop (inner_of note) ''headline'', get_prop note ''headline'']"

text \<open>A candidate of the title whose text is not empty.\<close>

definition has_text :: "builtins \<Rightarrow> jsval \<Rightarrow> bool" where
  "has_text B val = (safeStr B val \<noteq> Inr [])"

text \<open>A number that is a non-negative integer.\<close>

fun nonneg_int :: "jsnum \<Rightarrow> bool" where
  "nonneg_int (Fin r) = (0 \<le> r \<and> of_int \<lfloor>r\<rfloor> = r)"
| "nonneg_int _ = False"

text \<open>
  Every candidate field of an object that converts to a number converts to a
  non-negative integer.
\<close>

definition counts_only :: "builtins \<Rightarrow> json \<Rightarrow> string list \<Rightarrow> bool" where
  "counts_only B obj keys =
     list_all (\<lambda>key. case Number_of B (get_prop obj key) of
                       Inr n \<Rightarrow> n = NaN \<or> nonneg_int n
                     | Inl e \<Rightarrow> True) keys"



text \<open>A raw item with an inner count, an inner numeric string and an outer count.\<close>

definition nested_item :: json where
  "nested_item =
     JObj [(''like_count'', JNum (Fin 42)), (''price'', JNum (Fin 100)),
           (''note'', JObj [(''name'', JStr ''A''), (''likeCount'', JNum (Fin 15)),
                            (''price'', JStr ''1500'')])]"


text \<open>A raw item with a negative count and a negative numeric string.\<close>

definition negative_item :: json where
  "negative_item =
     JObj [(''name'', JStr ''A''), (''like_count'', JNum (Fin (- 5))),
           (''price'', JStr ''-300'')]"

section \<open>Quoted fields\<close>

text \<open>A text between quotation marks, with the quotation marks inside it doubled.\<close>

definition quoted :: "string \<Rightarrow> string" where
  "quoted s = [dquote] @ double_quotes s @ [dquote]"

text \<open>
  The reading of the inside of a quoted field: a pair of quotation marks stands for
  one, and a single one is an error.
\<close>

fun undouble :: "string \<Rightarrow> string option" where
  "undouble [] = Some []"
| "undouble [c] = (if c = dquote then None else Some [c])"
| "undouble (c # d # cs) =
     (if c = dquote then
        (if d = dquote then map_option ((#) dquote) (undouble cs) else None)
      else map_option ((#) c) (undouble (d # cs)))"

text \<open>The reading of a quoted field: the text between its outer quotation marks.\<close>

definition unquote :: "string \<Rightarrow> string option" where
  "unquote f =
     (if 2 \<le> length f \<and> hd f = dquote \<and> last f = dquote then undouble (butlast (tl f))
      else None)"

text \<open>The rating written in the row of an article: \<open>a.likeRating || 0\<close>.\<close>

definition rating_or_zero :: "article \<Rightarrow> jsnum" where
  "rating_or_zero a =
     (case likeRating a of None \<Rightarrow> Fin 0 | Some r \<Rightarrow> if num_truthy r then r else Fin 0)"

section \<open>What the rating cascade can return\<close>










text \<open>The values among a list of values and \<open>undefined\<close>.\<close>

fun somes :: "'a option list \<Rightarrow> 'a list" where
  "somes [] = []"
| "somes (None # vs) = somes vs"
| "somes (Some v # vs) = v # somes vs"








section \<open>The pages of the search endpoint\<close>

text \<open>The request for page \<open>k\<close>: the offset \<open>start\<close> advances by the page size.\<close>

definition page_request :: "search_params \<Rightarrow> nat \<Rightarrow> request" where
  "page_request params k =
     SearchApi (param_q params) (param_context params) PAGE_SIZE (k * PAGE_SIZE)
       (param_sort params)"

text \<open>
  The normalized items of page \<open>k\<close>; \<open>None\<close> when the request is rejected, when its
  status is not a success or when its body is not JSON.
\<close>

definition page_articles ::
  "builtins \<Rightarrow> (request \<Rightarrow> response) \<Rightarrow> search_params \<Rightarrow> nat \<Rightarrow> article list option" where
  "page_articles B server params k =
     (case server (page_request params k) of
        Ok b \<Rightarrow> map_option (\<lambda>data. extractNotesFromApiResponse B (Some data)) (decoded b)
      | _ \<Rightarrow> None)"

text \<open>The items of the pages from \<open>k\<close> up to \<open>n\<close>, in order; a failed page has none.\<close>

definition items_between ::
  "builtins \<Rightarrow> (request \<Rightarrow> response) \<Rightarrow> search_params \<Rightarrow> nat \<Rightarrow> nat \<Rightarrow> article list" where
  "items_between B server params k n =
     concat (map (\<lambda>j. case page_articles B server params j of Some as \<Rightarrow> as | None \<Rightarrow> [])
               [k..<n])"

text \<open>A page URL with the search text \<open>x\<close> and no other parameter.\<close>

definition query_x :: "string \<Rightarrow> string option" where
  "query_x name = (if name = ''q'' then Some ''x'' else None)"

text \<open>A body that is the JSON text of one note named \<open>A\<close> under \<open>data.notes\<close>.\<close>

definition one_note_body :: body where
  "one_note_body =
     \<lparr>decoded = Some (JObj [(''data'', JObj [(''notes'', JArr [JObj [(''name'', JStr ''A'')]])])]),
      rating_text = None, next_data = None, nuxt_field = None, html_field = None\<rparr>"

text \<open>
  A network that answers the first page of the search with one note and rejects every
  other request.
\<close>

definition one_page_then_offline :: "request \<Rightarrow> response" where
  "one_page_then_offline rq =
     (case rq of
        SearchApi qs c n start s \<Rightarrow> if start = 0 then Ok one_note_body else Rejected
      | _ \<Rightarrow> Rejected)"

text \<open>A network that answers every page of the search with the same one note.\<close>

definition one_note_pages :: "request \<Rightarrow> response" where
  "one_note_pages rq = (case rq of SearchApi qs c n start s \<Rightarrow> Ok one_note_body | _ \<Rightarrow> Rejected)"

definition article_A :: article where
  "article_A =
     \<lparr>title = ''A'', likeCount = Fin 0, price = Fin 0, url = [], creator = [],
      likeRating = None\<rparr>"

section \<open>Sequences of snapshots\<close>

definition article_B :: article where
  "article_B =
     \<lparr>title = ''B'', likeCount = Fin 0, price = Fin 0, url = ''https://note.com/u/n/n2'',
      creator = [], likeRating = None\<rparr>"

text \<open>
  A page whose list shows one article and two articles in turn, as a list that drops
  and restores an item at each scroll does.
\<close>

definition oscillating :: "nat \<Rightarrow> article list" where
  "oscillating i = (if even i then [article_A] else [article_A, article_B])"

text \<open>A page that shows two articles and never more.\<close>

definition two_articles :: "nat \<Rightarrow> article list" where
  "two_articles i = [article_A, article_B]"

text \<open>The session state right after a start request for three articles.\<close>

definition started_state :: scraping_state where
  "started_state =
     \<lparr>status = Scraping, current = 0, targetCount = 3, articles = [], message = []\<rparr>"

section \<open>Facts about the JSON Tree Locator\<close>

lemma find_append_first:
  "find P (xs @ ys) = (case find P xs of Some x \<Rightarrow> Some x | None \<Rightarrow> find P ys)"
  by (induction xs) auto

lemma first_path_find:
  "first_path vs = map_option (\<lambda>(s, v). elems v) (find eligible (map (Pair False) vs))"
  by (induction vs) auto

lemma first_entry_find:
  "first_entry skip kvs =
     map_option (\<lambda>(s, v). elems v)
       (find eligible
          (map (\<lambda>(k, v). (True, Some v)) (filter (\<lambda>(k, v). \<not> (skip \<and> k = ''data'')) kvs)))"
  by (induction skip kvs rule: first_entry.induct) auto

text \<open>
  C1, as the source has it. For a value that is an object or an array, the locator
  returns the first candidate of the priority order (the nine paths, \<open>data\<close> itself, the
  properties of a non-array \<open>data\<close> object, the top-level properties other than \<open>data\<close>)
  that is eligible, never a later one, and the empty sequence when none is; for any other
  value it returns the empty sequence. A path or \<open>data\<close> itself is eligible when it is a
  non-empty array; an enumerated property is eligible when it is a non-empty array whose
  first element is a non-null object.
\<close>

theorem findNotesArray_first_match:
  "findNotesArray data =
     (if truthy data \<and> typeof_object data then first_match data else [])"
  unfolding findNotesArray_def first_match_def candidates_def Let_def
  by (auto simp: find_append_first first_path_find first_entry_find nonempty_array_def
           split: option.splits)

theorem findNotesArray_first_match_witness:
  "findNotesArray (Some three_arrays) = [JObj [(''name'', JStr ''A'')]]
   \<and> first_match (Some three_arrays) = [JObj [(''name'', JStr ''A'')]]
   \<and> findNotesArray (Some (JStr ''text'')) = []
   \<and> findNotesArray (Some JNull) = []"
  using findNotesArray_first_match [of "Some three_arrays"]
        findNotesArray_first_match [of "Some (JStr ''text'')"]
        findNotesArray_first_match [of "Some JNull"]
  by (simp add: first_match_def candidates_def paths_def three_arrays_def nonempty_array_def
        object_array_def)

text \<open>
  C1 as stated fails: an array of numbers under the path \<open>data.notes\<close> is returned,
  although its first element is not an object and the array of objects under \<open>items\<close>
  comes later in the order.
\<close>

theorem findNotesArray_counterexample:
  "findNotesArray (Some numbers_then_objects) = [JNum (Fin 1), JNum (Fin 2)]
   \<and> \<not> object_array (Some (JArr (findNotesArray (Some numbers_then_objects))))
   \<and> first_object_array (Some numbers_then_objects) = [JObj [(''name'', JStr ''A'')]]"
  by (simp add: findNotesArray_def first_object_array_def candidates_def paths_def
        numbers_then_objects_def nonempty_array_def object_array_def)

section \<open>Facts about the Session State Machine\<close>

text \<open>
  C7. A start request received while the status is \<open>scraping\<close> is answered with
  \<open>already_running\<close> and leaves the session state as it is. A start request received in
  any other status is answered with \<open>started\<close>, and the state is then \<open>scraping\<close>, with
  the progress counter 0, the target of the request, no articles and an empty message.
\<close>

theorem startScraping_transition:
  "(status s = Scraping \<longrightarrow> onMessage (StartScraping n) s = (Some AlreadyRunning, s))
   \<and> (status s \<noteq> Scraping \<longrightarrow>
        fst (onMessage (StartScraping n) s) = Some Started
        \<and> status (snd (onMessage (StartScraping n) s)) = Scraping
        \<and> current (snd (onMessage (StartScraping n) s)) = 0
        \<and> targetCount (snd (onMessage (StartScraping n) s)) = n
        \<and> articles (snd (onMessage (StartScraping n) s)) = []
        \<and> message (snd (onMessage (StartScraping n) s)) = [])"
  by (simp add: onMessage_def)

theorem startScraping_transition_witness:
  "status running_state = Scraping
   \<and> onMessage (StartScraping 3) running_state = (Some AlreadyRunning, running_state)
   \<and> status idle_state \<noteq> Scraping
   \<and> onMessage (StartScraping 3) idle_state
       = (Some Started,
          \<lparr>status = Scraping, current = 0, targetCount = 3, articles = [], message = []\<rparr>)"
  using startScraping_transition [of running_state 3] startScraping_transition [of idle_state 3]
  by (simp add: running_state_def idle_state_def onMessage_def)

section \<open>Facts about the API Harvester\<close>

text \<open>
  C10. When the URL of the page has no parameter \<open>q\<close>, or an empty one,
  \<open>fetchFromAPI\<close> returns \<open>null\<close> at once: it issues no request and leaves the session
  state as it is, whatever the target.
\<close>

theorem fetchFromAPI_without_query:
  "query ''q'' = None \<or> query ''q'' = Some [] \<Longrightarrow>
     fetchFromAPI B query server target st = (None, st, [])"
  by (auto simp: fetchFromAPI_def getSearchParams_def param_or_def)

theorem fetchFromAPI_without_query_witness:
  "(Map.empty ''q'' = (None :: string option) \<or> Map.empty ''q'' = Some [])
   \<and> fetchFromAPI decimal_builtins Map.empty offline 5 idle_state = (None, idle_state, [])"
  using fetchFromAPI_without_query [of Map.empty decimal_builtins offline 5 idle_state]
  by simp

section \<open>Facts about the depth of the rating search\<close>

lemma rating_direct_none:
  "\<not> has_candidate obj keys \<Longrightarrow> rating_direct B obj keys = Inr None"
  by (induction keys) (auto simp: has_candidate_def)

lemma rating_direct_positive:
  "rating_direct B obj keys = Inr (Some n) \<Longrightarrow> num_pos n"
  by (induction keys) (auto split: if_splits sum.splits)

lemma rating_direct_complete:
  "rating_direct B obj keys = Inr None \<Longrightarrow> \<not> positive_candidate B obj keys"
  by (induction keys) (auto simp: positive_candidate_def split: if_splits sum.splits)

lemma plain_object_iff:
  "plain_object v \<longleftrightarrow> truthy (Some v) \<and> typeof_object (Some v) \<and> \<not> isArray (Some v)"
  by (cases v) auto

lemma rating_children_Cons:
  "rating_children B (val # vals) cands depth =
     (if plain_object val then
        (case findRatingInObject B (Some val) cands (Some (depth + 1)) of
           Inl e \<Rightarrow> Inl e
         | Inr found \<Rightarrow> if num_pos found then Inr found else rating_children B vals cands depth)
      else rating_children B vals cands depth)"
  by (simp add: plain_object_iff)

lemma not_found_general:
  "depth_or_zero depth0 \<le> 3 \<Longrightarrow>
     (\<forall>ob\<in>set (nested_upto (3 - depth_or_zero depth0) (the obj)). \<not> has_candidate ob cands)
    \<Longrightarrow> findRatingInObject B obj cands depth0 = Inr (Fin 0)"
  "(\<forall>v\<in>set vals. plain_object v \<longrightarrow> depth < 3 \<longrightarrow> (\<forall>ob\<in>set (nested_upto (2 - depth) v). \<not> has_candidate ob cands))
    \<Longrightarrow> rating_children B vals cands depth = Inr (Fin 0)"
proof (induction B obj cands depth0 and B vals cands depth rule: findRatingInObject_rating_children.induct)
  case (1 B obj fieldCandidates depth0)
  show ?case
  proof (cases "\<not> truthy obj \<or> \<not> typeof_object obj")
    case True
    then show ?thesis by (auto simp: findRatingInObject.simps)
  next
    case False
    then obtain j where j: "obj = Some j" by (cases obj) auto
    let ?d = "depth_or_zero depth0"
    have self: "j \<in> set (nested_upto (3 - ?d) j)" by (cases "3 - ?d") auto
    with 1 j have direct: "rating_direct B j fieldCandidates = Inr None"
      by (auto intro: rating_direct_none)
    have "rating_children B (values_of (the obj)) fieldCandidates ?d = Inr (Fin 0)"
    proof (rule 1(1))
      show "\<not> (\<not> truthy obj \<or> \<not> typeof_object obj \<or> 3 < ?d)" using False 1(2) by auto
      show "rating_direct B (the obj) fieldCandidates = Inr None" using direct j by simp
      show "\<forall>v\<in>set (values_of (the obj)). plain_object v \<longrightarrow> ?d < 3 \<longrightarrow>
              (\<forall>ob\<in>set (nested_upto (2 - ?d) v). \<not> has_candidate ob fieldCandidates)"
      proof (intro ballI impI)
        fix v ob assume v: "v \<in> set (values_of (the obj))" "plain_object v" "?d < 3"
          and ob: "ob \<in> set (nested_upto (2 - ?d) v)"
        from v(3) obtain k where k: "3 - ?d = Suc k" "2 - ?d = k" by (cases "3 - ?d") auto
        with v ob j have "ob \<in> set (nested_upto (3 - ?d) j)" by auto
        with 1(3) j show "\<not> has_candidate ob fieldCandidates" by auto
      qed
    qed simp
    with direct j False 1(2) show ?thesis
      by (simp add: findRatingInObject.simps)
  qed
next
  case (2 B fieldCandidates depth)
  then show ?case by simp
next
  case (3 B val vals fieldCandidates depth)
  note IH = 3(1-3)[folded plain_object_iff]
  have rest: "\<forall>v\<in>set vals. plain_object v \<longrightarrow> depth < 3 \<longrightarrow>
                (\<forall>ob\<in>set (nested_upto (2 - depth) v). \<not> has_candidate ob fieldCandidates)"
    using 3(4) by simp
  show ?case
  proof (cases "plain_object val")
    case False
    with IH(3)[OF False rest] show ?thesis by (subst rating_children_Cons) simp
  next
    case True
    have zero: "findRatingInObject B (Some val) fieldCandidates (Some (depth + 1)) = Inr (Fin 0)"
    proof (cases "depth < 3")
      case d: True
      show ?thesis
      proof (rule IH(1)[OF True])
        show "depth_or_zero (Some (depth + 1)) \<le> 3" using d by (simp add: depth_or_zero_def)
        show "\<forall>ob\<in>set (nested_upto (3 - depth_or_zero (Some (depth + 1))) (the (Some val))).
                \<not> has_candidate ob fieldCandidates"
          using 3(4) True d by (simp add: depth_or_zero_def)
      qed
    next
      case False
      then show ?thesis by (simp add: findRatingInObject.simps depth_or_zero_def)
    qed
    have "rating_children B vals fieldCandidates depth = Inr (Fin 0)"
      by (rule IH(2)[OF True zero _ rest]) simp
    with zero True show ?thesis by (subst rating_children_Cons) simp
  qed
qed

lemma found_general:
  "findRatingInObject B obj cands depth0 = Inr r \<Longrightarrow> truthy obj \<Longrightarrow> typeof_object obj \<Longrightarrow>
     depth_or_zero depth0 \<le> 3 \<Longrightarrow>
     ob \<in> set (nested_upto (3 - depth_or_zero depth0) (the obj)) \<Longrightarrow>
     positive_candidate B ob cands \<Longrightarrow> num_pos r"
  "rating_children B vals cands depth = Inr r \<Longrightarrow> depth < 3 \<Longrightarrow> v \<in> set vals \<Longrightarrow>
     plain_object v \<Longrightarrow> ob \<in> set (nested_upto (2 - depth) v) \<Longrightarrow>
     positive_candidate B ob cands \<Longrightarrow> num_pos r"
proof (induction B obj cands depth0 and B vals cands depth arbitrary: r ob and r v ob
       rule: findRatingInObject_rating_children.induct)
  case (1 B obj fieldCandidates depth0)
  let ?d = "depth_or_zero depth0"
  from 1(3,4,5) have guard: "\<not> (\<not> truthy obj \<or> \<not> typeof_object obj \<or> 3 < ?d)" by auto
  show ?case
  proof (cases "rating_direct B (the obj) fieldCandidates")
    case (Inl e)
    with 1(2) guard show ?thesis by (simp add: findRatingInObject.simps)
  next
    case (Inr res)
    show ?thesis
    proof (cases res)
      case (Some n)
      with Inr 1(2) guard have "r = n" by (simp add: findRatingInObject.simps)
      with Inr Some show ?thesis by (auto dest: rating_direct_positive)
    next
      case None
      with Inr 1(2) guard
      have ch: "rating_children B (values_of (the obj)) fieldCandidates ?d = Inr r"
        by (simp add: findRatingInObject.simps)
      from Inr None have nopos: "\<not> positive_candidate B (the obj) fieldCandidates"
        by (auto dest: rating_direct_complete)
      with 1(7) have "ob \<noteq> the obj" by auto
      with 1(6) obtain k where k: "3 - ?d = Suc k"
        by (cases "3 - ?d") auto
      with 1(6) \<open>ob \<noteq> the obj\<close> obtain v where
        v: "v \<in> set (values_of (the obj))" "plain_object v" "ob \<in> set (nested_upto k v)"
        by auto
      from k have "?d < 3" "2 - ?d = k" by auto
      with 1(1)[OF guard Inr[unfolded None] _ ch, of v ob] v 1(7) show ?thesis by simp
    qed
  qed
next
  case (2 B fieldCandidates depth)
  then show ?case by simp
next
  case (3 B val vals fieldCandidates depth)
  note IH = 3(1-3)[folded plain_object_iff]
  show ?case
  proof (cases "plain_object val")
    case False
    with 3(4) have rest: "rating_children B vals fieldCandidates depth = Inr r"
      by (subst (asm) rating_children_Cons) simp
    from False 3(6,7) have "v \<in> set vals" by auto
    from IH(3)[OF False rest 3(5) this 3(7,8,9)] show ?thesis .
  next
    case True
    show ?thesis
    proof (cases "findRatingInObject B (Some val) fieldCandidates (Some (depth + 1))")
      case (Inl e)
      with 3(4) True show ?thesis by (subst (asm) rating_children_Cons) simp
    next
      case (Inr found)
      show ?thesis
      proof (cases "num_pos found")
        case pos: True
        with 3(4) True Inr show ?thesis by (subst (asm) rating_children_Cons) simp
      next
        case neg: False
        with 3(4) True Inr have rest: "rating_children B vals fieldCandidates depth = Inr r"
          by (subst (asm) rating_children_Cons) simp
        have "v \<noteq> val"
        proof
          assume "v = val"
          with 3(8) 3(5) have "ob \<in> set (nested_upto (3 - depth_or_zero (Some (depth + 1))) (the (Some val)))"
            by (simp add: depth_or_zero_def)
          moreover have "depth_or_zero (Some (depth + 1)) \<le> 3" using 3(5) by (simp add: depth_or_zero_def)
          moreover have "truthy (Some val)" "typeof_object (Some val)"
            using True by (simp_all add: plain_object_iff)
          ultimately have "num_pos found" using IH(1)[OF True Inr] 3(9) by blast
          with neg show False by simp
        qed
        with 3(6) have "v \<in> set vals" by simp
        from IH(2)[OF True Inr neg rest 3(5) this 3(7,8,9)] show ?thesis .
      qed
    qed
  qed
qed

lemma rating_direct_single:
  "key \<in> set keys \<Longrightarrow> num_pos n \<Longrightarrow>
     rating_direct B (JObj [(key, JNum n)]) keys = Inr (Some n)"
  by (induction keys) auto

lemma rating_direct_other:
  "a \<notin> set keys \<Longrightarrow> rating_direct B (JObj [(a, v)]) keys = Inr None"
  by (induction keys) auto

lemma rating_direct_source:
  "rating_direct B obj keys = Inr (Some n) \<Longrightarrow> num_pos n \<and> field_number B obj keys n"
  by (induction keys) (auto simp: field_number_def split: if_splits sum.splits)

lemma nested_upto_child:
  "v \<in> set (values_of j) \<Longrightarrow> plain_object v \<Longrightarrow> ob \<in> set (nested_upto k v) \<Longrightarrow>
     ob \<in> set (nested_upto (Suc k) j)"
  by auto

lemma nested_upto_self: "j \<in> set (nested_upto k j)"
  by (cases k) auto

lemma found_source:
  "findRatingInObject B obj cands depth0 = Inr r \<Longrightarrow>
     r = Fin 0 \<or> (num_pos r \<and> depth_or_zero depth0 \<le> 3
                  \<and> (\<exists>ob\<in>set (nested_upto (3 - depth_or_zero depth0) (the obj)).
                         field_number B ob cands r))"
  "rating_children B vals cands depth = Inr r \<Longrightarrow>
     r = Fin 0 \<or> (num_pos r \<and> depth < 3
                  \<and> (\<exists>v\<in>set vals. plain_object v
                         \<and> (\<exists>ob\<in>set (nested_upto (2 - depth) v). field_number B ob cands r)))"
proof (induction B obj cands depth0 and B vals cands depth arbitrary: r and r
       rule: findRatingInObject_rating_children.induct)
  case (1 B obj fieldCandidates depth0)
  let ?d = "depth_or_zero depth0"
  show ?case
  proof (cases "\<not> truthy obj \<or> \<not> typeof_object obj \<or> 3 < ?d")
    case True
    with 1(2) show ?thesis by (simp add: findRatingInObject.simps)
  next
    case guard: False
    then have d: "?d \<le> 3" by simp
    show ?thesis
    proof (cases "rating_direct B (the obj) fieldCandidates")
      case (Inl e)
      with 1(2) guard show ?thesis by (simp add: findRatingInObject.simps)
    next
      case (Inr res)
      show ?thesis
      proof (cases res)
        case (Some n)
        with Inr 1(2) guard have "r = n" by (simp add: findRatingInObject.simps)
        with Inr Some rating_direct_source[of B "the obj" fieldCandidates n] d
          nested_upto_self[of "the obj" "3 - ?d"]
        show ?thesis by blast
      next
        case None
        with Inr 1(2) guard
        have ch: "rating_children B (values_of (the obj)) fieldCandidates ?d = Inr r"
          by (simp add: findRatingInObject.simps)
        from 1(1)[OF guard Inr[unfolded None] _ ch]
        have "r = Fin 0 \<or> (num_pos r \<and> ?d < 3
                  \<and> (\<exists>v\<in>set (values_of (the obj)). plain_object v
                         \<and> (\<exists>ob\<in>set (nested_upto (2 - ?d) v). field_number B ob fieldCandidates r)))"
          by simp
        then show ?thesis
        proof
          assume "r = Fin 0" then show ?thesis by simp
        next
          assume h: "num_pos r \<and> ?d < 3
                  \<and> (\<exists>v\<in>set (values_of (the obj)). plain_object v
                         \<and> (\<exists>ob\<in>set (nested_upto (2 - ?d) v). field_number B ob fieldCandidates r))"
          then obtain v ob where v: "v \<in> set (values_of (the obj))" "plain_object v"
            "ob \<in> set (nested_upto (2 - ?d) v)" "field_number B ob fieldCandidates r"
            by blast
          from h have "?d < 3" by blast
          then have "3 - ?d = Suc (2 - ?d)" by arith
          with nested_upto_child[OF v(1,2,3)] have "ob \<in> set (nested_upto (3 - ?d) (the obj))"
            by simp
          with h v(4) d show ?thesis by blast
        qed
      qed
    qed
  qed
next
  case (2 B fieldCandidates depth)
  then show ?case by simp
next
  case (3 B val vals fieldCandidates depth)
  note IH = 3(1-3)[folded plain_object_iff]
  show ?case
  proof (cases "plain_object val")
    case False
    with 3(4) have rest: "rating_children B vals fieldCandidates depth = Inr r"
      by (subst (asm) rating_children_Cons) simp
    from IH(3)[OF False rest] show ?thesis by auto
  next
    case True
    show ?thesis
    proof (cases "findRatingInObject B (Some val) fieldCandidates (Some (depth + 1))")
      case (Inl e)
      with 3(4) True show ?thesis by (subst (asm) rating_children_Cons) simp
    next
      case (Inr found)
      show ?thesis
      proof (cases "num_pos found")
        case pos: True
        with 3(4) True Inr have r: "r = found" by (subst (asm) rating_children_Cons) simp
        from pos have "found \<noteq> Fin 0" by auto
        with IH(1)[OF True Inr] have
          "num_pos found \<and> depth_or_zero (Some (depth + 1)) \<le> 3
             \<and> (\<exists>ob\<in>set (nested_upto (3 - depth_or_zero (Some (depth + 1))) (the (Some val))).
                    field_number B ob fieldCandidates found)"
          by blast
        then have "num_pos found \<and> depth < 3
             \<and> (\<exists>ob\<in>set (nested_upto (2 - depth) val). field_number B ob fieldCandidates found)"
          by (simp add: depth_or_zero_def)
        with r True show ?thesis by auto
      next
        case neg: False
        with 3(4) True Inr have rest: "rating_children B vals fieldCandidates depth = Inr r"
          by (subst (asm) rating_children_Cons) simp
        from IH(2)[OF True Inr neg rest] show ?thesis by auto
      qed
    qed
  qed
qed

lemma field_number_positive:
  "field_number B ob keys r \<Longrightarrow> num_pos r \<Longrightarrow> positive_candidate B ob keys"
proof -
  assume f: "field_number B ob keys r" and p: "num_pos r"
  then obtain key where k: "key \<in> set keys" "Number_of B (get_prop ob key) = Inr r"
    by (auto simp: field_number_def list_ex_iff)
  from k(2) p have "get_prop ob key \<noteq> None \<and> get_prop ob key \<noteq> Some JNull"
    by (cases "get_prop ob key") auto
  with k p show ?thesis by (auto simp: positive_candidate_def list_ex_iff)
qed

lemma rating_direct_returns:
  "coercible B obj keys \<Longrightarrow> \<exists>res. rating_direct B obj keys = Inr res"
  by (induction keys) (auto simp: coercible_def split: sum.splits)

lemma returns_general:
  "(depth_or_zero depth0 \<le> 3 \<longrightarrow>
      (\<forall>ob\<in>set (nested_upto (3 - depth_or_zero depth0) (the obj)). coercible B ob cands))
    \<Longrightarrow> \<exists>r. findRatingInObject B obj cands depth0 = Inr r"
  "(depth < 3 \<longrightarrow> (\<forall>v\<in>set vals. plain_object v \<longrightarrow>
                    (\<forall>ob\<in>set (nested_upto (2 - depth) v). coercible B ob cands)))
    \<Longrightarrow> \<exists>r. rating_children B vals cands depth = Inr r"
proof (induction B obj cands depth0 and B vals cands depth
       rule: findRatingInObject_rating_children.induct)
  case (1 B obj fieldCandidates depth0)
  let ?d = "depth_or_zero depth0"
  show ?case
  proof (cases "\<not> truthy obj \<or> \<not> typeof_object obj \<or> 3 < ?d")
    case True
    then show ?thesis by (simp add: findRatingInObject.simps)
  next
    case guard: False
    then have d: "?d \<le> 3" by simp
    with 1(2) have all: "\<forall>ob\<in>set (nested_upto (3 - ?d) (the obj)). coercible B ob fieldCandidates"
      by blast
    with nested_upto_self[of "the obj" "3 - ?d"]
    have "coercible B (the obj) fieldCandidates" by blast
    then obtain res where res: "rating_direct B (the obj) fieldCandidates = Inr res"
      using rating_direct_returns by blast
    show ?thesis
    proof (cases res)
      case (Some n)
      with res guard show ?thesis by (simp add: findRatingInObject.simps)
    next
      case None
      have "\<exists>r. rating_children B (values_of (the obj)) fieldCandidates ?d = Inr r"
      proof (rule 1(1)[OF guard res[unfolded None]])
        show "?d < 3 \<longrightarrow> (\<forall>v\<in>set (values_of (the obj)). plain_object v \<longrightarrow>
                (\<forall>ob\<in>set (nested_upto (2 - ?d) v). coercible B ob fieldCandidates))"
        proof (intro impI ballI)
          fix v ob assume lt: "?d < 3" and v: "v \<in> set (values_of (the obj))" "plain_object v"
            "ob \<in> set (nested_upto (2 - ?d) v)"
          from lt have "3 - ?d = Suc (2 - ?d)" by arith
          with nested_upto_child[OF v] have "ob \<in> set (nested_upto (3 - ?d) (the obj))" by simp
          with all show "coercible B ob fieldCandidates" by blast
        qed
      qed simp
      with res None guard show ?thesis by (simp add: findRatingInObject.simps)
    qed
  qed
next
  case (2 B fieldCandidates depth)
  then show ?case by simp
next
  case (3 B val vals fieldCandidates depth)
  note IH = 3(1-3)[folded plain_object_iff]
  have rest: "depth < 3 \<longrightarrow> (\<forall>v\<in>set vals. plain_object v \<longrightarrow>
                    (\<forall>ob\<in>set (nested_upto (2 - depth) v). coercible B ob fieldCandidates))"
    using 3(4) by simp
  show ?case
  proof (cases "plain_object val")
    case False
    with IH(3)[OF False rest] show ?thesis by (subst rating_children_Cons) simp
  next
    case True
    have "\<exists>found. findRatingInObject B (Some val) fieldCandidates (Some (depth + 1)) = Inr found"
    proof (rule IH(1)[OF True])
      show "depth_or_zero (Some (depth + 1)) \<le> 3 \<longrightarrow>
              (\<forall>ob\<in>set (nested_upto (3 - depth_or_zero (Some (depth + 1))) (the (Some val))).
                  coercible B ob fieldCandidates)"
        using 3(4) True by (auto simp: depth_or_zero_def)
    qed
    then obtain found where f: "findRatingInObject B (Some val) fieldCandidates (Some (depth + 1))
                                  = Inr found" by blast
    show ?thesis
    proof (cases "num_pos found")
      case pos: True
      with f True show ?thesis by (subst rating_children_Cons) simp
    next
      case neg: False
      from IH(2)[OF True f neg rest] f neg True show ?thesis
        by (subst rating_children_Cons) simp
    qed
  qed
qed

text \<open>
  C9, as the source has it. The search of \<open>findRatingInObject\<close> is bounded in depth,
  for every object or array \<open>obj\<close> and every list of candidate fields. The call returns
  whenever every candidate field of the values nested at most three levels of objects deep
  converts to a number without throwing. When a value nested at most two levels deep has a
  candidate field that converts to a positive number, a call that returns returns a
  positive number, and a candidate field with a positive number under a chain of two keys
  is the number returned. A field nested four levels deep or deeper is never found: what
  a call returns is 0 or the positive number that a candidate field of a value nested at
  most three levels deep converts to. So the call returns 0 when no value nested at most
  three levels deep has a candidate field, and a call that returns returns 0 when no such
  value has a candidate field that converts to a positive number, whatever lies deeper.
\<close>

theorem findRatingInObject_depth_bound:
  assumes "truthy (Some obj)" and "typeof_object (Some obj)"
  shows
    "(findRatingInObject B (Some obj) cands None = Inr r
        \<and> ob \<in> set (nested_upto 2 obj) \<and> positive_candidate B ob cands \<longrightarrow> num_pos r)
     \<and> (key \<in> set cands \<and> a \<notin> set cands \<and> b \<notin> set cands \<and> num_pos n \<longrightarrow>
          findRatingInObject B (Some (JObj [(a, JObj [(b, JObj [(key, JNum n)])])])) cands None
            = Inr n)
     \<and> ((\<forall>ob\<in>set (nested_upto 3 obj). \<not> has_candidate ob cands) \<longrightarrow>
          findRatingInObject B (Some obj) cands None = Inr (Fin 0))
     \<and> ((\<forall>ob\<in>set (nested_upto 3 obj). coercible B ob cands) \<longrightarrow>
          (\<exists>r'. findRatingInObject B (Some obj) cands None = Inr r'))
     \<and> (findRatingInObject B (Some obj) cands None = Inr r \<longrightarrow>
          r = Fin 0
          \<or> (num_pos r \<and> (\<exists>ob\<in>set (nested_upto 3 obj). field_number B ob cands r)))
     \<and> (findRatingInObject B (Some obj) cands None = Inr r
          \<and> (\<forall>ob\<in>set (nested_upto 3 obj). \<not> positive_candidate B ob cands) \<longrightarrow>
        r = Fin 0)"
proof (intro conjI impI)
  assume h: "findRatingInObject B (Some obj) cands None = Inr r
        \<and> ob \<in> set (nested_upto 2 obj) \<and> positive_candidate B ob cands"
  have "set (nested_upto 2 obj) \<subseteq> set (nested_upto 3 obj)"
    by (auto simp: numeral_2_eq_2 numeral_3_eq_3)
  with h have "ob \<in> set (nested_upto (3 - depth_or_zero None) (the (Some obj)))"
    by (auto simp: depth_or_zero_def)
  with h assms show "num_pos r"
    using found_general(1)[of B "Some obj" cands None r ob]
    by (simp add: depth_or_zero_def)
next
  assume "key \<in> set cands \<and> a \<notin> set cands \<and> b \<notin> set cands \<and> num_pos n"
  then show "findRatingInObject B (Some (JObj [(a, JObj [(b, JObj [(key, JNum n)])])])) cands None
            = Inr n"
    by (simp add: findRatingInObject.simps depth_or_zero_def rating_direct_other
          rating_direct_single)
next
  assume "\<forall>ob\<in>set (nested_upto 3 obj). \<not> has_candidate ob cands"
  then show "findRatingInObject B (Some obj) cands None = Inr (Fin 0)"
    using not_found_general(1)[of None "Some obj" cands B]
    by (simp add: depth_or_zero_def)
next
  assume "\<forall>ob\<in>set (nested_upto 3 obj). coercible B ob cands"
  then show "\<exists>r'. findRatingInObject B (Some obj) cands None = Inr r'"
    using returns_general(1)[of None "Some obj" B cands]
    by (simp add: depth_or_zero_def)
next
  assume "findRatingInObject B (Some obj) cands None = Inr r"
  from found_source(1)[OF this]
  show "r = Fin 0 \<or> (num_pos r \<and> (\<exists>ob\<in>set (nested_upto 3 obj). field_number B ob cands r))"
    by (simp add: depth_or_zero_def)
next
  assume h: "findRatingInObject B (Some obj) cands None = Inr r
          \<and> (\<forall>ob\<in>set (nested_upto 3 obj). \<not> positive_candidate B ob cands)"
  then have "r = Fin 0
     \<or> (num_pos r \<and> (\<exists>ob\<in>set (nested_upto 3 obj). field_number B ob cands r))"
    using found_source(1)[of B "Some obj" cands None r] by (simp add: depth_or_zero_def)
  with h show "r = Fin 0" by (blast dest: field_number_positive)
qed

lemma zero_then_deep_rating:
  "findRatingInObject decimal_builtins (Some zero_then_deep) ratingFieldCandidates None
     = Inr (Fin 0)"
  by (simp add: findRatingInObject.simps zero_then_deep_def ratingFieldCandidates_def
        depth_or_zero_def)

theorem findRatingInObject_depth_bound_witness:
  "truthy (Some two_deep) \<and> typeof_object (Some two_deep)
   \<and> findRatingInObject decimal_builtins (Some two_deep) ratingFieldCandidates None = Inr (Fin 7)
   \<and> JObj [(''rating_count'', JNum (Fin 7))] \<in> set (nested_upto 2 two_deep)
   \<and> positive_candidate decimal_builtins (JObj [(''rating_count'', JNum (Fin 7))])
         ratingFieldCandidates
   \<and> num_pos (Fin 7)
   \<and> list_all (\<lambda>ob. coercible decimal_builtins ob ratingFieldCandidates) (nested_upto 3 two_deep)
   \<and> list_ex (\<lambda>ob. field_number decimal_builtins ob ratingFieldCandidates (Fin 7))
       (nested_upto 3 two_deep)
   \<and> truthy (Some four_deep) \<and> typeof_object (Some four_deep)
   \<and> list_all (\<lambda>ob. \<not> has_candidate ob ratingFieldCandidates) (nested_upto 3 four_deep)
   \<and> findRatingInObject decimal_builtins (Some four_deep) ratingFieldCandidates None
       = Inr (Fin 0)
   \<and> truthy (Some zero_then_deep) \<and> typeof_object (Some zero_then_deep)
   \<and> has_candidate zero_then_deep ratingFieldCandidates
   \<and> list_all (\<lambda>ob. \<not> positive_candidate decimal_builtins ob ratingFieldCandidates)
       (nested_upto 3 zero_then_deep)
   \<and> findRatingInObject decimal_builtins (Some zero_then_deep) ratingFieldCandidates None
       = Inr (Fin 0)"
  using findRatingInObject_depth_bound
          [of two_deep decimal_builtins ratingFieldCandidates "Fin 7"
              "JObj [(''rating_count'', JNum (Fin 7))]" "''rating_count''" "''a''" "''b''" "Fin 7"]
        findRatingInObject_depth_bound
          [of four_deep decimal_builtins ratingFieldCandidates "Fin 0" four_deep
              "''rating_count''" "''a''" "''b''" "Fin 7"]
        findRatingInObject_depth_bound
          [of zero_then_deep decimal_builtins ratingFieldCandidates "Fin 0" zero_then_deep
              "''rating_count''" "''a''" "''b''" "Fin 7"]
        zero_then_deep_rating
  by (simp add: two_deep_def four_deep_def zero_then_deep_def ratingFieldCandidates_def
        numeral_2_eq_2 numeral_3_eq_3 has_candidate_def positive_candidate_def coercible_def
        field_number_def list_all_iff)

text \<open>
  C9 as stated fails: a rating field of 7 under a chain of two keys is not found when
  a rating field at the top holds an object with a property \<open>toString\<close>, since
  \<open>Number\<close> throws on it and the search has no handler of its own.
\<close>

theorem findRatingInObject_throwing_counterexample:
  "truthy (Some throwing_blob) \<and> typeof_object (Some throwing_blob)
   \<and> JObj [(''rating_count'', JNum (Fin 7))] \<in> set (nested_upto 2 throwing_blob)
   \<and> positive_candidate decimal_builtins (JObj [(''rating_count'', JNum (Fin 7))])
         ratingFieldCandidates
   \<and> findRatingInObject decimal_builtins (Some throwing_blob) ratingFieldCandidates None
       = Inl TypeError"
  by (simp add: findRatingInObject.simps throwing_blob_def ratingFieldCandidates_def
        depth_or_zero_def numeral_2_eq_2 positive_candidate_def)

section \<open>Facts about the Field Normalizer\<close>

lemmas normalizer_defs =
  extractArticleFromNote_def inner_of_def safeNum_def like_keys_def price_keys_def str_or_def
  safeStr_def num_or_def buildNoteUrl_def js_or_def findCreatorName_def or_zero_def
  decimal_builtins_def decimal_number_def digit_value_def Let_def

lemmas normalizer_spec_defs =
  first_valid_def valid_number_def has_text_def title_candidates_def counts_only_def


lemma safeNum_keys_not_NaN: "safeNum_keys B obj keys = Inr n \<Longrightarrow> n \<noteq> NaN"
  by (induction keys) (auto simp: Let_def split: if_splits sum.splits)

lemma safeNum_keys_source:
  "safeNum_keys B obj keys = Inr n \<Longrightarrow>
     n = Fin 0 \<or> (\<exists>key\<in>set keys. Number_of B (get_prop obj key) = Inr n)"
  by (induction keys) (auto simp: Let_def split: if_splits sum.splits)

lemma inner_of_object: "truthy (Some note) \<Longrightarrow> typeof_object (Some note) \<Longrightarrow>
  truthy (Some (inner_of note)) \<and> typeof_object (Some (inner_of note))"
  by (cases "get_prop note ''note''") (auto simp: inner_of_def)

lemma extract_numbers:
  assumes "extractArticleFromNote B (Some note) = Inr (Some a)"
  shows "\<exists>lc pr. num_or (safeNum_keys B (inner_of note) like_keys) (safeNum_keys B note like_keys) = Inr lc
           \<and> num_or (safeNum_keys B (inner_of note) price_keys) (safeNum_keys B note price_keys) = Inr pr
           \<and> likeCount a = or_zero lc \<and> price a = or_zero pr"
  using assms inner_of_object[of "note"]
  by (auto simp: extractArticleFromNote_def safeNum_def Let_def split: if_splits sum.splits)





lemma num_or_Inr:
  "num_or x y = Inr n \<Longrightarrow> (x = Inr n \<and> num_truthy n) \<or> ((\<exists>m. x = Inr m \<and> \<not> num_truthy m) \<and> y = Inr n)"
  by (auto simp: num_or_def split: sum.splits if_splits)


lemma or_zero_id: "n \<noteq> NaN \<Longrightarrow> or_zero n = n"
  by (cases n) (auto simp: or_zero_def)






lemma num_or_source:
  assumes "num_or (safeNum_keys B inner keys) (safeNum_keys B outer keys) = Inr n"
  shows "n \<noteq> NaN"
    and "n = Fin 0 \<or> (\<exists>key\<in>set keys. Number_of B (get_prop inner key) = Inr n
                          \<or> Number_of B (get_prop outer key) = Inr n)"
  using num_or_Inr[OF assms]
  by (auto dest: safeNum_keys_not_NaN safeNum_keys_source)

lemma counts_only_nonneg:
  assumes "num_or (safeNum_keys B inner keys) (safeNum_keys B outer keys) = Inr n"
    and "counts_only B inner keys" and "counts_only B outer keys"
  shows "nonneg_int (or_zero n)"
proof -
  note src = num_or_source[OF assms(1)]
  from src(2) show ?thesis
  proof
    assume "n = Fin 0"
    then show ?thesis by (simp add: or_zero_def)
  next
    assume "\<exists>key\<in>set keys. Number_of B (get_prop inner key) = Inr n
                          \<or> Number_of B (get_prop outer key) = Inr n"
    then obtain key where "key \<in> set keys"
      and "Number_of B (get_prop inner key) = Inr n \<or> Number_of B (get_prop outer key) = Inr n"
      by blast
    with assms(2,3) src(1) have "nonneg_int n"
      by (auto simp: counts_only_def list_all_iff)
    with src(1) show ?thesis by (simp add: or_zero_id)
  qed
qed

text \<open>
  C8, as the source has it. The engagement count and the price of every article the
  normalizer makes are numbers, never NaN. Each is 0 or the number one of its candidate
  fields converts to, without rounding or clamping; so each is a non-negative integer
  whenever every candidate field of the inner view and of the outer item that converts
  to a number converts to a non-negative integer.
\<close>

theorem extractArticleFromNote_numbers:
  assumes "extractArticleFromNote B (Some note) = Inr (Some a)"
  shows
    "likeCount a \<noteq> NaN \<and> price a \<noteq> NaN
     \<and> (likeCount a = Fin 0
          \<or> (\<exists>key\<in>set like_keys. Number_of B (get_prop (inner_of note) key) = Inr (likeCount a)
                                     \<or> Number_of B (get_prop note key) = Inr (likeCount a)))
     \<and> (price a = Fin 0
          \<or> (\<exists>key\<in>set price_keys. Number_of B (get_prop (inner_of note) key) = Inr (price a)
                                      \<or> Number_of B (get_prop note key) = Inr (price a)))
     \<and> (counts_only B (inner_of note) like_keys \<and> counts_only B note like_keys \<longrightarrow>
          nonneg_int (likeCount a))
     \<and> (counts_only B (inner_of note) price_keys \<and> counts_only B note price_keys \<longrightarrow>
          nonneg_int (price a))"
proof -
  from extract_numbers[OF assms] obtain lc pr where
    lc: "num_or (safeNum_keys B (inner_of note) like_keys) (safeNum_keys B note like_keys) = Inr lc"
    and pr: "num_or (safeNum_keys B (inner_of note) price_keys) (safeNum_keys B note price_keys) = Inr pr"
    and eq: "likeCount a = or_zero lc" "price a = or_zero pr"
    by blast
  note l = num_or_source[OF lc] and p = num_or_source[OF pr]
  have eq': "likeCount a = lc" "price a = pr"
    using eq l(1) p(1) by (simp_all add: or_zero_id)
  show ?thesis
    using l p counts_only_nonneg[OF lc] counts_only_nonneg[OF pr] eq
    unfolding eq' by auto
qed

theorem extractArticleFromNote_numbers_witness:
  "extractArticleFromNote decimal_builtins (Some nested_item)
     = Inr (Some \<lparr>title = ''A'', likeCount = Fin 15, price = Fin 1500, url = [], creator = [],
                  likeRating = None\<rparr>)
   \<and> counts_only decimal_builtins (inner_of nested_item) like_keys
   \<and> counts_only decimal_builtins nested_item like_keys
   \<and> counts_only decimal_builtins (inner_of nested_item) price_keys
   \<and> counts_only decimal_builtins nested_item price_keys
   \<and> nonneg_int (Fin 15) \<and> nonneg_int (Fin 1500)"
proof -
  have n: "extractArticleFromNote decimal_builtins (Some nested_item)
     = Inr (Some \<lparr>title = ''A'', likeCount = Fin 15, price = Fin 1500, url = [], creator = [],
                  likeRating = None\<rparr>)"
    by (simp add: normalizer_defs nested_item_def)
  have c1: "counts_only decimal_builtins (inner_of nested_item) like_keys"
    by (simp add: normalizer_spec_defs normalizer_defs nested_item_def)
  have c2: "counts_only decimal_builtins nested_item like_keys"
    by (simp add: normalizer_spec_defs normalizer_defs nested_item_def)
  have c3: "counts_only decimal_builtins (inner_of nested_item) price_keys"
    by (simp add: normalizer_spec_defs normalizer_defs nested_item_def)
  have c4: "counts_only decimal_builtins nested_item price_keys"
    by (simp add: normalizer_spec_defs normalizer_defs nested_item_def)
  show ?thesis
    using extractArticleFromNote_numbers[OF n] n c1 c2 c3 c4 by simp
qed

text \<open>
  C8 as stated fails: a negative count and a negative numeric string pass through the
  normalizer as they are.
\<close>

theorem extractArticleFromNote_negative_counterexample:
  "extractArticleFromNote decimal_builtins (Some negative_item)
     = Inr (Some \<lparr>title = ''A'', likeCount = Fin (- 5), price = Fin (- 300), url = [],
                  creator = [], likeRating = None\<rparr>)
   \<and> \<not> nonneg_int (Fin (- 5)) \<and> \<not> nonneg_int (Fin (- 300))"
  by (simp add: normalizer_defs negative_item_def)

section \<open>Facts about the Export Encoder\<close>

lemma double_quotes_id: "dquote \<notin> set s \<Longrightarrow> double_quotes s = s"
  by (induction s) auto

lemma undouble_other: "c \<noteq> dquote \<Longrightarrow> undouble (c # s) = map_option ((#) c) (undouble s)"
  by (cases s) auto

lemma undouble_double_quotes: "undouble (double_quotes s) = Some s"
  by (induction s) (auto simp: undouble_other)

lemma unquote_quoted: "unquote (quoted s) = Some s"
  by (simp add: unquote_def quoted_def undouble_double_quotes)

lemma escapeCsvField_quoted:
  "escapeCsvField B v =
     (if truthy v then map_sum id quoted (String_of B v) else Inr (quoted []))"
proof (cases "String_of B v")
  case (Inl e)
  then show ?thesis by (simp add: escapeCsvField_def quoted_def)
next
  case (Inr str)
  then show ?thesis
    by (cases "dquote \<in> set str") (simp_all add: escapeCsvField_def quoted_def double_quotes_id)
qed

lemma escapeCsvField_string: "escapeCsvField B (Some (JStr s)) = Inr (quoted s)"
  by (cases s) (simp_all add: escapeCsvField_quoted quoted_def)

lemma csv_row_fields:
  "csv_row B a =
     Inr [quoted (title a), numToString B (likeCount a), numToString B (rating_or_zero a),
          numToString B (price a), quoted (url a), quoted (creator a)]"
  by (simp add: csv_row_def escapeCsvField_string rating_or_zero_def)

lemma csv_rows_total:
  "csv_rows B arts =
     Inr (map (\<lambda>a. [quoted (title a), numToString B (likeCount a),
                     numToString B (rating_or_zero a), numToString B (price a),
                     quoted (url a), quoted (creator a)]) arts)"
  by (induction arts) (simp_all add: csv_row_fields)


lemma quoted_ends: "hd (quoted s) = dquote \<and> last (quoted s) = dquote"
  by (simp add: quoted_def)

lemmas decimal_defs =
  decimal_builtins_def int_text_def nat_to_dec.simps digit_char_def

text \<open>
  C3, as the source has it. Every value that goes through \<open>escapeCsvField\<close> comes out
  between quotation marks, the quotation marks inside it doubled, so that the field reads
  back as the value's text; a falsy value comes out as two quotation marks, and so does the
  empty string, and \<open>a"b\<close> comes out as \<open>"a""b"\<close>. In a row of \<open>downloadCSV\<close> the
  title, the URL and the creator go through \<open>escapeCsvField\<close>; the engagement count, the
  rating and the price are written as \<open>String\<close> gives them, without quotation marks. The
  export never throws and no column is ever left out.
\<close>

theorem csv_fields_quoted:
  "escapeCsvField B v = (if truthy v then map_sum id quoted (String_of B v) else Inr (quoted []))
   \<and> hd (quoted s) = dquote \<and> last (quoted s) = dquote \<and> unquote (quoted s) = Some s
   \<and> escapeCsvField B (Some (JStr [])) = Inr [dquote, dquote]
   \<and> escapeCsvField B (Some (JStr (''a'' @ [dquote] @ ''b'')))
       = Inr ([dquote] @ ''a'' @ [dquote, dquote] @ ''b'' @ [dquote])
   \<and> csv_rows B arts
       = Inr (map (\<lambda>a. [quoted (title a), numToString B (likeCount a),
                          numToString B (rating_or_zero a), numToString B (price a),
                          quoted (url a), quoted (creator a)]) arts)
   \<and> downloadCSV B arts
       = Inr (bom @ join [newline]
                (join [comma] csv_headers
                 # map (\<lambda>a. join [comma]
                            [quoted (title a), numToString B (likeCount a),
                             numToString B (rating_or_zero a), numToString B (price a),
                             quoted (url a), quoted (creator a)]) arts))"
proof -
  have ex: "escapeCsvField B (Some (JStr (''a'' @ [dquote] @ ''b'')))
       = Inr ([dquote] @ ''a'' @ [dquote, dquote] @ ''b'' @ [dquote])"
    by (simp add: escapeCsvField_string quoted_def dquote_def)
  have dl: "downloadCSV B arts
       = Inr (bom @ join [newline]
                (join [comma] csv_headers
                 # map (\<lambda>a. join [comma]
                            [quoted (title a), numToString B (likeCount a),
                             numToString B (rating_or_zero a), numToString B (price a),
                             quoted (url a), quoted (creator a)]) arts))"
    by (simp add: downloadCSV_def csv_rows_total comp_def)
  show ?thesis
    using escapeCsvField_quoted[of B v] quoted_ends[of s] unquote_quoted[of s]
      escapeCsvField_string[of B "[]"] ex csv_rows_total[of B arts] dl
    by (simp add: quoted_def)
qed

theorem csv_fields_quoted_witness:
  "truthy (Some (JStr ''A''))
   \<and> escapeCsvField decimal_builtins (Some (JStr ''A'')) = Inr ([dquote] @ ''A'' @ [dquote])
   \<and> \<not> truthy (Some (JNum (Fin 0)))
   \<and> escapeCsvField decimal_builtins (Some (JNum (Fin 0))) = Inr [dquote, dquote]
   \<and> csv_rows decimal_builtins [sample_article]
       = Inr [[quoted ''A'', ''42'', ''0'', ''500'', quoted ''https://note.com/u/n/n1'',
               quoted ''C'']]"
  using csv_fields_quoted [of decimal_builtins "Some (JStr ''A'')" "''A''" "[sample_article]"]
        csv_fields_quoted [of decimal_builtins "Some (JNum (Fin 0))" "''A''" "[sample_article]"]
  by (simp add: quoted_def dquote_def sample_article_def rating_or_zero_def decimal_defs)

text \<open>
  C3 as stated fails: the second, third and fourth field of a row are not wrapped in
  quotation marks.
\<close>

theorem csv_numeric_field_counterexample:
  "csv_row decimal_builtins sample_article
     = Inr [quoted ''A'', ''42'', ''0'', ''500'', quoted ''https://note.com/u/n/n1'', quoted ''C'']
   \<and> hd ''42'' \<noteq> dquote \<and> last ''42'' \<noteq> dquote"
  by (simp add: csv_row_def escapeCsvField_def sample_article_def quoted_def dquote_def comma_def
        newline_def decimal_defs)

section \<open>Facts about the Rating Enricher\<close>








lemma somes_member: "Some j \<in> set vs \<Longrightarrow> j \<in> set (somes vs)"
  by (induction vs rule: somes.induct) auto
















section \<open>Facts about the pages of the API Harvester\<close>

lemma push_upto_take_target:
  "length arts \<le> target \<Longrightarrow> push_upto target arts ps = take target (arts @ ps)"
  by (simp add: push_upto_take)

lemma take_take_append: "take t (take t xs @ ys) = take t (xs @ ys)"
  by (simp add: take_append min_def)

lemma items_between_empty: "items_between B server params k k = []"
  by (simp add: items_between_def)

lemma items_between_first:
  "k < n \<Longrightarrow>
     items_between B server params k n =
       (case page_articles B server params k of Some as \<Rightarrow> as | None \<Rightarrow> [])
       @ items_between B server params (Suc k) n"
  by (simp add: items_between_def upt_conv_Cons)

lemma api_loop_unfold:
  "api_loop B server params target arts (k * PAGE_SIZE) st reqs =
     (if length arts < target then
        (case page_articles B server params k of
           None \<Rightarrow> (None, st, reqs @ [page_request params k])
         | Some parsed \<Rightarrow>
             if parsed = [] then (nonempty_or_null arts, st, reqs @ [page_request params k])
             else api_loop B server params target (push_upto target arts parsed)
                    (Suc k * PAGE_SIZE) (st\<lparr>current := length (push_upto target arts parsed)\<rparr>)
                    (reqs @ [page_request params k]))
      else (nonempty_or_null arts, st, reqs))"
  by (subst api_loop.simps)
     (auto simp: page_articles_def page_request_def Let_def add.commute
           split: response.splits option.splits)


lemma api_loop_spec:
  assumes "api_loop B server params target arts (k * PAGE_SIZE) st reqs = (res, st', reqs')"
    and "length arts \<le> target"
  shows "\<exists>n\<ge>k. reqs' = reqs @ map (page_request params) [k..<n]
          \<and> ((\<exists>j. k \<le> j \<and> j < n \<and> page_articles B server params j = None) \<longrightarrow> res = None)
          \<and> ((\<forall>j. k \<le> j \<and> j < n \<longrightarrow> page_articles B server params j \<noteq> None) \<longrightarrow>
               res = nonempty_or_null (take target (arts @ items_between B server params k n))
               \<and> (target \<le> length (arts @ items_between B server params k n)
                  \<or> (k < n \<and> page_articles B server params (n - 1) = Some [])))
          \<and> (\<forall>j. k \<le> j \<and> j + 1 < n \<longrightarrow>
               page_articles B server params j \<noteq> None
               \<and> page_articles B server params j \<noteq> Some []
               \<and> length (arts @ items_between B server params k (j + 1)) < target)"
  using assms
proof (induction "target - length arts" arbitrary: arts k st reqs rule: less_induct)
  case less
  let ?pg = "page_articles B server params"
  let ?it = "items_between B server params"
  let ?C1 = "\<lambda>n. reqs' = reqs @ map (page_request params) [k..<n]"
  let ?C2 = "\<lambda>n. (\<exists>j. k \<le> j \<and> j < n \<and> ?pg j = None) \<longrightarrow> res = None"
  let ?C3 = "\<lambda>n. (\<forall>j. k \<le> j \<and> j < n \<longrightarrow> ?pg j \<noteq> None) \<longrightarrow>
               res = nonempty_or_null (take target (arts @ ?it k n))
               \<and> (target \<le> length (arts @ ?it k n) \<or> (k < n \<and> ?pg (n - 1) = Some []))"
  let ?C4 = "\<lambda>n. \<forall>j. k \<le> j \<and> j + 1 < n \<longrightarrow>
               ?pg j \<noteq> None \<and> ?pg j \<noteq> Some []
               \<and> length (arts @ ?it k (j + 1)) < target"
  note run = less.prems(1)[unfolded api_loop_unfold[of B server params target arts k st reqs]]
  have concl: "\<And>n. k \<le> n \<Longrightarrow> ?C1 n \<Longrightarrow> ?C2 n \<Longrightarrow> ?C3 n \<Longrightarrow> ?C4 n \<Longrightarrow> ?case"
    by blast
  show ?case
  proof (cases "length arts < target")
    case False
    with run less.prems(2) have r: "res = nonempty_or_null arts" "reqs' = reqs" "length arts = target"
      by auto
    show ?thesis
    proof (rule concl[of k])
      show "?C1 k" using r by simp
      show "?C2 k" by auto
      show "?C3 k" using r by (simp add: items_between_empty)
      show "?C4 k" by auto
    qed simp
  next
    case lt: True
    show ?thesis
    proof (cases "?pg k")
      case None
      with run lt have r: "res = None" "reqs' = reqs @ [page_request params k]" by auto
      show ?thesis
      proof (rule concl[of "Suc k"])
        show "?C1 (Suc k)" using r by simp
        show "?C2 (Suc k)" using r by simp
        show "?C3 (Suc k)" using None by auto
        show "?C4 (Suc k)" by auto
      qed simp
    next
      case (Some parsed)
      show ?thesis
      proof (cases "parsed = []")
        case True
        with run lt Some have r: "res = nonempty_or_null arts" "reqs' = reqs @ [page_request params k]"
          by auto
        have it: "?it k (Suc k) = []"
          using Some True by (simp add: items_between_first items_between_empty)
        have pg: "\<And>j. k \<le> j \<Longrightarrow> j < Suc k \<Longrightarrow> ?pg j = Some []"
          using Some True by (simp add: le_less_Suc_eq)
        show ?thesis
        proof (rule concl[of "Suc k"])
          show "?C1 (Suc k)" using r by simp
          show "?C2 (Suc k)" using pg by auto
          show "?C3 (Suc k)" using r it less.prems(2) Some True by simp
          show "?C4 (Suc k)" by auto
        qed simp
      next
        case False
        let ?arts = "push_upto target arts parsed"
        have arts': "?arts = take target (arts @ parsed)"
          using less.prems(2) by (rule push_upto_take_target)
        from run lt Some False
        have rec: "api_loop B server params target ?arts (Suc k * PAGE_SIZE)
                     (st\<lparr>current := length ?arts\<rparr>) (reqs @ [page_request params k])
                   = (res, st', reqs')"
          by simp
        have dec: "target - length ?arts < target - length arts"
          using lt False by (rule push_upto_grows)
        have le: "length ?arts \<le> target" by (simp add: arts')
        from less.hyps[OF dec rec le] obtain n where n: "Suc k \<le> n"
          and rq: "reqs' = (reqs @ [page_request params k]) @ map (page_request params) [Suc k..<n]"
          and fail: "(\<exists>j. Suc k \<le> j \<and> j < n \<and> ?pg j = None) \<longrightarrow> res = None"
          and ok: "(\<forall>j. Suc k \<le> j \<and> j < n \<longrightarrow> ?pg j \<noteq> None) \<longrightarrow>
               res = nonempty_or_null (take target (?arts @ ?it (Suc k) n))
               \<and> (target \<le> length (?arts @ ?it (Suc k) n)
                  \<or> (Suc k < n \<and> ?pg (n - 1) = Some []))"
          and prog: "\<forall>j. Suc k \<le> j \<and> j + 1 < n \<longrightarrow>
               ?pg j \<noteq> None \<and> ?pg j \<noteq> Some []
               \<and> length (?arts @ ?it (Suc k) (j + 1)) < target"
          by blast
        from n have kn: "k < n" by simp
        have split: "\<And>m. k < m \<Longrightarrow> ?it k m = parsed @ ?it (Suc k) m"
          using Some by (simp add: items_between_first)
        have tk: "\<And>m. k < m \<Longrightarrow> take target (?arts @ ?it (Suc k) m) = take target (arts @ ?it k m)"
          by (simp only: arts' take_take_append split append_assoc)
        have len: "\<And>m. k < m \<Longrightarrow>
                     target \<le> length (?arts @ ?it (Suc k) m) \<longleftrightarrow> target \<le> length (arts @ ?it k m)"
          by (auto simp: arts' split min_def)
        have c1: "?C1 n"
          using rq kn by (simp add: upt_conv_Cons)
        have c2: "?C2 n"
        proof
          assume "\<exists>j. k \<le> j \<and> j < n \<and> ?pg j = None"
          then obtain j where j: "k \<le> j" "j < n" "?pg j = None" by blast
          with Some have "j \<noteq> k" by auto
          with j have "Suc k \<le> j" by simp
          with j fail show "res = None" by blast
        qed
        have c3: "?C3 n"
        proof
          assume a: "\<forall>j. k \<le> j \<and> j < n \<longrightarrow> ?pg j \<noteq> None"
          then have "\<forall>j. Suc k \<le> j \<and> j < n \<longrightarrow> ?pg j \<noteq> None" by auto
          with ok have "res = nonempty_or_null (take target (?arts @ ?it (Suc k) n))"
            and "target \<le> length (?arts @ ?it (Suc k) n) \<or> (Suc k < n \<and> ?pg (n - 1) = Some [])"
            by blast+
          then show "res = nonempty_or_null (take target (arts @ ?it k n))
               \<and> (target \<le> length (arts @ ?it k n) \<or> (k < n \<and> ?pg (n - 1) = Some []))"
            unfolding tk[OF kn] len[OF kn] using kn by blast
        qed
        have c4: "?C4 n"
        proof (intro allI impI)
          fix j assume j: "k \<le> j \<and> j + 1 < n"
          show "?pg j \<noteq> None \<and> ?pg j \<noteq> Some [] \<and> length (arts @ ?it k (j + 1)) < target"
          proof (cases "j = k")
            case True
            from j True have "Suc k < n" by simp
            have "length ?arts < target"
            proof (rule ccontr)
              assume "\<not> length ?arts < target"
              then have "api_loop B server params target ?arts (Suc k * PAGE_SIZE)
                     (st\<lparr>current := length ?arts\<rparr>) (reqs @ [page_request params k])
                   = (nonempty_or_null ?arts, st\<lparr>current := length ?arts\<rparr>,
                      reqs @ [page_request params k])"
                by (subst api_loop_unfold) simp
              with rec have "reqs' = reqs @ [page_request params k]"
                by simp
              with rq \<open>Suc k < n\<close> show False by (simp add: upt_conv_Cons)
            qed
            then have "length (arts @ parsed) < target" by (simp add: arts' min_def split: if_splits)
            with True Some False show ?thesis
              by (simp add: items_between_first items_between_empty)
          next
            case False
            with j have sj: "Suc k \<le> j \<and> j + 1 < n" by simp
            with prog have p: "?pg j \<noteq> None" "?pg j \<noteq> Some []"
              "length (?arts @ ?it (Suc k) (j + 1)) < target" by blast+
            from p(3) have "\<not> target \<le> length (?arts @ ?it (Suc k) (j + 1))" by simp
            with len[of "j + 1"] sj have "length (arts @ ?it k (j + 1)) < target" by simp
            with p show ?thesis by simp
          qed
        qed
        from kn have "k \<le> n" by simp
        then show ?thesis using c1 c2 c3 c4 by (rule concl)
      qed
    qed
  qed
qed


text \<open>
  C5, as the source has it. With a search text in the URL, \<open>fetchFromAPI\<close> requests
  the pages in order, each one only while the count is under the target and after a page
  that gave items. It returns \<open>null\<close> whenever a page request is rejected by the network,
  has a status that is not a success or has a body that is not JSON, and whenever no item
  was collected. Otherwise it returns the items of the pages, cut at the target, so at most
  \<open>targetCount\<close> articles and at least one, and it has stopped either at a page with no
  item or because the count reached the target.
\<close>

theorem fetchFromAPI_result:
  assumes "param_q (getSearchParams query) \<noteq> []"
    and "fetchFromAPI B query server target st = (res, st', reqs)"
  shows
    "\<exists>n. reqs = map (page_request (getSearchParams query)) [0..<n]
       \<and> ((\<exists>j<n. page_articles B server (getSearchParams query) j = None) \<longrightarrow> res = None)
       \<and> ((\<forall>j<n. page_articles B server (getSearchParams query) j \<noteq> None) \<longrightarrow>
            res = nonempty_or_null
                    (take target (items_between B server (getSearchParams query) 0 n))
            \<and> (target \<le> length (items_between B server (getSearchParams query) 0 n)
                 \<or> (0 < n \<and> page_articles B server (getSearchParams query) (n - 1) = Some [])))
       \<and> (\<forall>j. j + 1 < n \<longrightarrow>
            page_articles B server (getSearchParams query) j \<noteq> None
            \<and> page_articles B server (getSearchParams query) j \<noteq> Some []
            \<and> length (items_between B server (getSearchParams query) 0 (j + 1)) < target)
       \<and> (\<forall>arts. res = Some arts \<longrightarrow> arts \<noteq> [] \<and> length arts \<le> target)"
proof -
  let ?p = "getSearchParams query"
  from assms have run: "api_loop B server ?p target [] (0 * PAGE_SIZE) st [] = (res, st', reqs)"
    by (simp add: fetchFromAPI_def Let_def)
  from api_loop_spec[OF run] obtain n where
    c1: "reqs = [] @ map (page_request ?p) [0..<n]"
    and c2: "(\<exists>j. 0 \<le> j \<and> j < n \<and> page_articles B server ?p j = None) \<longrightarrow> res = None"
    and c3: "(\<forall>j. 0 \<le> j \<and> j < n \<longrightarrow> page_articles B server ?p j \<noteq> None) \<longrightarrow>
               res = nonempty_or_null (take target ([] @ items_between B server ?p 0 n))
               \<and> (target \<le> length ([] @ items_between B server ?p 0 n)
                  \<or> (0 < n \<and> page_articles B server ?p (n - 1) = Some []))"
    and c4: "\<forall>j. 0 \<le> j \<and> j + 1 < n \<longrightarrow>
               page_articles B server ?p j \<noteq> None \<and> page_articles B server ?p j \<noteq> Some []
               \<and> length ([] @ items_between B server ?p 0 (j + 1)) < target"
    by auto
  have c5: "\<forall>arts. res = Some arts \<longrightarrow> arts \<noteq> [] \<and> length arts \<le> target"
  proof (cases "\<exists>j<n. page_articles B server ?p j = None")
    case True
    with c2 show ?thesis by auto
  next
    case False
    with c3 have "res = nonempty_or_null (take target (items_between B server ?p 0 n))"
      by auto
    then show ?thesis by (auto simp: nonempty_or_null_def split: if_splits)
  qed
  from c1 c2 c3 c4 c5 show ?thesis
    by (intro exI[of _ n]) simp
qed

lemma one_note_items:
  "extractNotesFromApiResponse B (decoded one_note_body) = [article_A]"
  by (simp add: one_note_body_def extractNotesFromApiResponse_def findNotesArray_def paths_def
        nonempty_array_def extractArticleFromNote_def inner_of_def safeNum_def like_keys_def
        price_keys_def str_or_def safeStr_def num_or_def buildNoteUrl_def js_or_def
        findCreatorName_def or_zero_def article_A_def Let_def)

lemma query_x_params:
  "getSearchParams query_x
     = \<lparr>param_q = ''x'', param_context = ''note'', param_mode = ''search'', param_sort = []\<rparr>"
  by (simp add: getSearchParams_def param_or_def query_x_def)

lemma one_note_pages_run:
  "fetchFromAPI B query_x one_note_pages 2 idle_state
     = (Some [article_A, article_A], idle_state\<lparr>current := 2\<rparr>,
        [SearchApi ''x'' ''note'' 20 0 [], SearchApi ''x'' ''note'' 20 20 []])"
  using one_note_items[of B]
  by (simp add: fetchFromAPI_def query_x_params api_loop.simps PAGE_SIZE_def one_note_pages_def
        one_note_body_def nonempty_or_null_def Let_def)

theorem fetchFromAPI_result_witness:
  "param_q (getSearchParams query_x) \<noteq> []
   \<and> fetchFromAPI decimal_builtins query_x one_note_pages 2 idle_state
       = (Some [article_A, article_A], idle_state\<lparr>current := 2\<rparr>,
          [SearchApi ''x'' ''note'' 20 0 [], SearchApi ''x'' ''note'' 20 20 []])
   \<and> length [article_A, article_A] \<le> 2"
  using fetchFromAPI_result [OF _ one_note_pages_run [of decimal_builtins]]
        one_note_pages_run [of decimal_builtins]
  by (simp add: query_x_params)

text \<open>
  C5 as stated fails: the first page gives one article, with a success status and a
  JSON body, the request for the second page is rejected by the network, and the result is
  \<open>null\<close>, not the one article.
\<close>

theorem fetchFromAPI_rejected_counterexample:
  "fetchFromAPI decimal_builtins query_x one_page_then_offline 2 idle_state
     = (None, idle_state\<lparr>current := 1\<rparr>,
        [SearchApi ''x'' ''note'' 20 0 [], SearchApi ''x'' ''note'' 20 20 []])
   \<and> one_page_then_offline (SearchApi ''x'' ''note'' 20 0 []) = Ok one_note_body
   \<and> extractNotesFromApiResponse decimal_builtins (decoded one_note_body) = [article_A]
   \<and> one_page_then_offline (SearchApi ''x'' ''note'' 20 20 []) = Rejected"
  using one_note_items[of decimal_builtins]
  by (simp add: fetchFromAPI_def query_x_params api_loop.simps PAGE_SIZE_def
        one_page_then_offline_def one_note_body_def Let_def)

section \<open>Facts about the Scroll Collector\<close>

lemma oscillating_length: "length (oscillating i) = (if even i then 1 else 2)"
  by (simp add: oscillating_def)

lemma scroll_loop_oscillating:
  assumes "scroll_loop snapshots target i lastArticleCount noNewArticleRetries st = Some y"
  shows "\<not> (snapshots = oscillating \<and> target = 3 \<and> status st = Scraping
            \<and> lastArticleCount \<noteq> length (oscillating i))"
proof (rule scroll_loop.raw_induct
         [where P = "\<lambda>snap t k last r s z.
                       \<not> (snap = oscillating \<and> t = 3 \<and> status s = Scraping
                          \<and> last \<noteq> length (oscillating k))",
          OF _ assms])
  fix loop :: "(nat \<Rightarrow> article list) \<Rightarrow> nat \<Rightarrow> nat \<Rightarrow> nat \<Rightarrow> nat \<Rightarrow> scraping_state
               \<Rightarrow> scraping_state option"
    and snap t k last r s z
  assume IH: "\<And>snap t k last r s z. loop snap t k last r s = Some z \<Longrightarrow>
                \<not> (snap = oscillating \<and> t = 3 \<and> status s = Scraping
                   \<and> last \<noteq> length (oscillating k))"
    and body: "(if status s = Scraping
      then if t \<le> length (snap k)
           then Some (s\<lparr>articles := take t (snap k), current := t\<rparr>)
           else if length (snap k) = last
                then if MAX_RETRIES \<le> r + 1
                     then Some (s\<lparr>articles := snap k, current := length (snap k)\<rparr>)
                     else loop snap t (k + 1) (length (snap k)) (r + 1)
                           (s\<lparr>articles := snap k, current := length (snap k)\<rparr>)
                else loop snap t (k + 1) (length (snap k)) 0
                      (s\<lparr>articles := snap k, current := length (snap k)\<rparr>)
      else Some s) = Some z"
  show "\<not> (snap = oscillating \<and> t = 3 \<and> status s = Scraping
            \<and> last \<noteq> length (oscillating k))"
  proof
    assume inv: "snap = oscillating \<and> t = 3 \<and> status s = Scraping
            \<and> last \<noteq> length (oscillating k)"
    let ?s = "s\<lparr>articles := oscillating k, current := length (oscillating k)\<rparr>"
    from inv body have next_call:
      "loop oscillating 3 (k + 1) (length (oscillating k)) 0 ?s = Some z"
      by (simp add: oscillating_length split: if_splits)
    have "status ?s = Scraping" using inv by simp
    moreover have "length (oscillating k) \<noteq> length (oscillating (k + 1))"
      by (simp add: oscillating_length)
    ultimately show False using IH[OF next_call] by simp
  qed
qed

text \<open>
  C6 at a page whose list shows one article and two articles in turn, with a target of
  three: the count differs from the previous one at every attempt, so the counter of
  attempts without new articles is reset each time, the target is never reached, and
  \<open>autoScrollAndCollect\<close> never returns.
\<close>

theorem autoScrollAndCollect_oscillating: "autoScrollAndCollect oscillating 3 started_state = None"
proof (cases "autoScrollAndCollect oscillating 3 started_state")
  case None
  then show ?thesis .
next
  case (Some y)
  then have "scroll_loop oscillating 3 0 0 0 started_state = Some y"
    by (simp add: autoScrollAndCollect_def)
  from scroll_loop_oscillating[OF this] show ?thesis
    by (simp add: started_state_def oscillating_length)
qed


text \<open>
  When the count of the snapshots never decreases, the loop returns: with the first
  \<open>targetCount\<close> articles of a snapshot that has reached the target, or, after
  \<open>MAX_RETRIES\<close> attempts in a row with the same count, with a snapshot that has fewer.
\<close>

lemma scroll_loop_returns:
  assumes "\<forall>j. length (snapshots j) \<le> length (snapshots (j + 1))"
    and "status st = Scraping"
    and "lastArticleCount \<le> length (snapshots i)"
    and "noNewArticleRetries < MAX_RETRIES"
  shows "\<exists>k\<ge>i. scroll_loop snapshots target i lastArticleCount noNewArticleRetries st
           = Some (if target \<le> length (snapshots k)
                   then st\<lparr>articles := take target (snapshots k), current := target\<rparr>
                   else st\<lparr>articles := snapshots k, current := length (snapshots k)\<rparr>)"
  using assms(2-)
proof (induction "(target - lastArticleCount) * MAX_RETRIES + (MAX_RETRIES - noNewArticleRetries)"
         arbitrary: i lastArticleCount noNewArticleRetries st rule: less_induct)
  case less
  let ?len = "length (snapshots i)"
  let ?st = "st\<lparr>articles := snapshots i, current := ?len\<rparr>"
  have st: "status ?st = Scraping" using less.prems(1) by simp
  have nxt: "?len \<le> length (snapshots (i + 1))" using assms(1) by blast
  show ?case
  proof (cases "target \<le> ?len")
    case True
    with less.prems(1) have "scroll_loop snapshots target i lastArticleCount noNewArticleRetries st
           = Some (st\<lparr>articles := take target (snapshots i), current := target\<rparr>)"
      by (subst scroll_loop.simps) simp
    with True show ?thesis by (intro exI[of _ i]) simp
  next
    case small: False
    show ?thesis
    proof (cases "?len = lastArticleCount")
      case same: True
      show ?thesis
      proof (cases "MAX_RETRIES \<le> noNewArticleRetries + 1")
        case True
        with less.prems(1) small same
        have "scroll_loop snapshots target i lastArticleCount noNewArticleRetries st = Some ?st"
          by (subst scroll_loop.simps) simp
        with small show ?thesis by (intro exI[of _ i]) simp
      next
        case False
        then have r: "noNewArticleRetries + 1 < MAX_RETRIES" by simp
        have m: "(target - ?len) * MAX_RETRIES + (MAX_RETRIES - (noNewArticleRetries + 1))
                 < (target - lastArticleCount) * MAX_RETRIES + (MAX_RETRIES - noNewArticleRetries)"
          using same r by simp
        from less.hyps[OF m st nxt r] obtain k where k: "i + 1 \<le> k"
          and res: "scroll_loop snapshots target (i + 1) ?len (noNewArticleRetries + 1) ?st
             = Some (if target \<le> length (snapshots k)
                     then ?st\<lparr>articles := take target (snapshots k), current := target\<rparr>
                     else ?st\<lparr>articles := snapshots k, current := length (snapshots k)\<rparr>)"
          by blast
        from less.prems(1) small same False
        have "scroll_loop snapshots target i lastArticleCount noNewArticleRetries st
              = scroll_loop snapshots target (i + 1) ?len (noNewArticleRetries + 1) ?st"
          by (subst scroll_loop.simps) simp
        with res k show ?thesis by (intro exI[of _ k]) simp
      qed
    next
      case changed: False
      with less.prems(2) have grow: "lastArticleCount < ?len" by simp
      have r0: "0 < MAX_RETRIES" by (simp add: MAX_RETRIES_def)
      from grow small have "target - ?len < target - lastArticleCount" by simp
      then have "(target - ?len) * MAX_RETRIES + MAX_RETRIES
                 \<le> (target - lastArticleCount) * MAX_RETRIES"
        by (metis Suc_leI mult_Suc mult_le_mono1 add.commute)
      with less.prems(3)
      have m: "(target - ?len) * MAX_RETRIES + (MAX_RETRIES - 0)
                 < (target - lastArticleCount) * MAX_RETRIES + (MAX_RETRIES - noNewArticleRetries)"
        by simp
      from less.hyps[OF m st nxt r0] obtain k where k: "i + 1 \<le> k"
        and res: "scroll_loop snapshots target (i + 1) ?len 0 ?st
             = Some (if target \<le> length (snapshots k)
                     then ?st\<lparr>articles := take target (snapshots k), current := target\<rparr>
                     else ?st\<lparr>articles := snapshots k, current := length (snapshots k)\<rparr>)"
        by blast
      from less.prems(1) small changed
      have "scroll_loop snapshots target i lastArticleCount noNewArticleRetries st
              = scroll_loop snapshots target (i + 1) ?len 0 ?st"
        by (subst scroll_loop.simps) simp
      with res k show ?thesis by (intro exI[of _ k]) simp
    qed
  qed
qed

lemma autoScrollAndCollect_returns:
  assumes "\<forall>j. length (snapshots j) \<le> length (snapshots (j + 1))"
    and "status st = Scraping"
  shows "\<exists>k. autoScrollAndCollect snapshots target st
           = Some (if target \<le> length (snapshots k)
                   then st\<lparr>articles := take target (snapshots k), current := target\<rparr>
                   else st\<lparr>articles := snapshots k, current := length (snapshots k)\<rparr>)"
  using scroll_loop_returns[OF assms, of 0 0 0 target]
  by (auto simp: autoScrollAndCollect_def MAX_RETRIES_def)

text \<open>
  A page that shows two articles and never more, with a target of three: the loop
  returns at the stagnation threshold and keeps the two articles.
\<close>

lemma autoScrollAndCollect_two_articles:
  "autoScrollAndCollect two_articles 3 started_state
     = Some (started_state\<lparr>articles := [article_A, article_B], current := 2\<rparr>)"
proof -
  have "\<forall>j. length (two_articles j) \<le> length (two_articles (j + 1))"
    by (simp add: two_articles_def)
  moreover have "status started_state = Scraping"
    by (simp add: started_state_def)
  ultimately obtain k where
    "autoScrollAndCollect two_articles 3 started_state
       = Some (if 3 \<le> length (two_articles k)
               then started_state\<lparr>articles := take 3 (two_articles k), current := 3\<rparr>
               else started_state\<lparr>articles := two_articles k,
                                   current := length (two_articles k)\<rparr>)"
    using autoScrollAndCollect_returns[of two_articles started_state 3] by blast
  then show ?thesis by (simp add: two_articles_def)
qed

end
